theory Spec2Isabelle
  imports Complex_Main "HOL-Library.Multiset"
begin

section \<open>The cell table of fix_sheet.py\<close>

text \<open>
  A worksheet table is the list of its \<open>Row\<close> elements and a row is the list of its
  \<open>Cell\<close> elements, in document order. Of a cell the program reads and writes only the
  \<open>ss:Index\<close> attribute and the first \<open>Data\<close> child (its text and its \<open>ss:Type\<close>); every
  other attribute and child is carried along untouched and is left out here.

  \<^item> \<open>cindex\<close> is the parsed \<open>ss:Index\<close> attribute: \<open>None\<close> when the attribute is absent
    or the empty string (the source tests \<open>if idx:\<close>), \<open>Some i\<close> when \<open>int(idx)\<close> is \<open>i\<close>.
  \<^item> \<open>cdata\<close> is the \<open>Data\<close> child: \<open>None\<close> when there is none, otherwise its text
    (\<open>d.text or ""\<close>) and its type attribute.

  Python compares cells by reference. A cell of a row is named here by its index in the
  list of the row's cells, which is what stays fixed while the row is mutated (the
  source only ever appends cells).
\<close>

record cell =
  cindex :: "int option"
  cdata :: "(string \<times> string) option"

type_synonym row = "cell list"
type_synonym table = "row list"

datatype error = HeaderNotFound | KeyError | ZeroDivisionError

text \<open>The running position counter of \<open>enumerate_cells_with_positions\<close>.\<close>

fun cell_positions :: "int \<Rightarrow> row \<Rightarrow> int list" where
  "cell_positions pos [] = []"
| "cell_positions pos (c # cs) =
     (let p = (case cindex c of Some i \<Rightarrow> i | None \<Rightarrow> pos)
      in p # cell_positions (p + 1) cs)"

definition enumerate_cells_with_positions :: "row \<Rightarrow> (int \<times> nat) list" where
  "enumerate_cells_with_positions r = zip (cell_positions 1 r) [0..<length r]"

text \<open>
  \<open>dict(pairs).get(k)\<close>: a later pair with the same key replaces an earlier one.
\<close>

definition dict_get :: "('k \<times> 'v) list \<Rightarrow> 'k \<Rightarrow> 'v option" where
  "dict_get ps k = map_of (rev ps) k"

definition pos2cell :: "row \<Rightarrow> int \<Rightarrow> nat option" where
  "pos2cell r = dict_get (enumerate_cells_with_positions r)"

definition get_cell_text :: "cell \<Rightarrow> string" where
  "get_cell_text c = (case cdata c of None \<Rightarrow> [] | Some (t, _) \<Rightarrow> t)"

definition get_cell_type :: "cell \<Rightarrow> string option" where
  "get_cell_type c = (case cdata c of None \<Rightarrow> None | Some (_, ty) \<Rightarrow> Some ty)"

definition set_cell_text :: "cell \<Rightarrow> string \<Rightarrow> string \<Rightarrow> cell" where
  "set_cell_text c text ss_type = c\<lparr>cdata := Some (text, ss_type)\<rparr>"

text \<open>\<open>set_cell_text\<close> on the cell of row \<open>r\<close> with reference \<open>k\<close>.\<close>

definition set_text_at :: "row \<Rightarrow> nat \<Rightarrow> string \<Rightarrow> string \<Rightarrow> row" where
  "set_text_at r k text ss_type = r[k := set_cell_text (r ! k) text ss_type]"

definition new_cell :: "int \<Rightarrow> cell" where
  "new_cell pos_1b = \<lparr>cindex = Some pos_1b, cdata = None\<rparr>"

definition get_or_create_cell_at_position :: "row \<Rightarrow> int \<Rightarrow> row \<times> nat" where
  "get_or_create_cell_at_position r pos_1b =
     (case pos2cell r pos_1b of
        Some k \<Rightarrow> (r, k)
      | None \<Rightarrow> (r @ [new_cell pos_1b], length r))"

text \<open>
  The text read through \<open>pos2cell\<close>:
  \<open>get_cell_text(pos2cell.get(col)) if col in pos2cell else ""\<close>.
\<close>

definition text_at :: "row \<Rightarrow> int \<Rightarrow> string" where
  "text_at r col = (case pos2cell r col of None \<Rightarrow> [] | Some k \<Rightarrow> get_cell_text (r ! k))"

definition type_at :: "row \<Rightarrow> int \<Rightarrow> string option" where
  "type_at r col = (case pos2cell r col of None \<Rightarrow> None | Some k \<Rightarrow> get_cell_type (r ! k))"

section \<open>Text helpers\<close>

text \<open>
  Python strings are sequences of code points; a \<^typ>\<open>char\<close> stands for a code point below
  256. On that range \<open>str.isspace\<close> (which \<open>str.strip\<close> and the regular expression class
  \<open>\s\<close> use) holds of the twelve characters below, \<open>\d\<close> of the ASCII digits only, and
  \<open>\w\<close> of the alphanumeric characters and the underscore.
\<close>

definition is_space :: "char \<Rightarrow> bool" where
  "is_space c = (c \<in> set [CHR 0x09, CHR 0x0A, CHR 0x0B, CHR 0x0C, CHR 0x0D, CHR 0x1C,
     CHR 0x1D, CHR 0x1E, CHR 0x1F, CHR 0x20, CHR 0x85, CHR 0xA0])"

definition is_digit :: "char \<Rightarrow> bool" where
  "is_digit c = (c \<in> set ''0123456789'')"

definition is_alpha :: "char \<Rightarrow> bool" where
  "is_alpha c = (c \<in> set ''ABCDEFGHIJKLMNOPQRSTUVWXYZabcdefghijklmnopqrstuvwxyz'')"

definition is_alnum :: "char \<Rightarrow> bool" where
  "is_alnum c = (is_alpha c \<or> is_digit c)"

text \<open>
  \<open>\w\<close> on code points below 256: the ASCII letters, digits and underscore, and the
  Latin-1 letters and numeric characters (\<open>str.isalnum\<close>).
\<close>

definition is_word :: "char \<Rightarrow> bool" where
  "is_word c = (is_alnum c \<or> c = CHR ''_'' \<or>
     c \<in> set [CHR 0xAA, CHR 0xB2, CHR 0xB3, CHR 0xB5, CHR 0xB9, CHR 0xBA, CHR 0xBC, CHR 0xBD,
       CHR 0xBE] \<or>
     (0xC0 \<le> (of_char c :: nat) \<and> (of_char c :: nat) \<noteq> 0xD7 \<and> (of_char c :: nat) \<noteq> 0xF7))"

definition strip :: "string \<Rightarrow> string" where
  "strip s = rev (dropWhile is_space (rev (dropWhile is_space s)))"

text \<open>
  \<open>str.upper\<close> and \<open>str.lower\<close>. The ASCII letters are mapped as Python maps them and
  \<open>0xDF\<close> (sharp s) goes to \<open>SS\<close>; the other characters from 128 on are left as they are
  (Python maps some of them to other characters that are not ASCII either, so every
  comparison the source makes with an ASCII pattern comes out the same).
\<close>

definition upper_char :: "char \<Rightarrow> string" where
  "upper_char c =
     (case map_of (zip ''abcdefghijklmnopqrstuvwxyz'' ''ABCDEFGHIJKLMNOPQRSTUVWXYZ'') c of
        Some u \<Rightarrow> [u]
      | None \<Rightarrow> if c = CHR 0xDF then ''SS'' else [c])"

definition upper :: "string \<Rightarrow> string" where
  "upper s = concat (map upper_char s)"

definition lower_char :: "char \<Rightarrow> char" where
  "lower_char c =
     (case map_of (zip ''ABCDEFGHIJKLMNOPQRSTUVWXYZ'' ''abcdefghijklmnopqrstuvwxyz'') c of
        Some l \<Rightarrow> l
      | None \<Rightarrow> c)"

definition lower :: "string \<Rightarrow> string" where
  "lower s = map lower_char s"

text \<open>\<open>needle in hay\<close> on strings.\<close>

fun py_in :: "string \<Rightarrow> string \<Rightarrow> bool" where
  "py_in needle [] = (needle = [])"
| "py_in needle (c # cs) = (take (length needle) (c # cs) = needle \<or> py_in needle cs)"

text \<open>\<open>int(s)\<close> on a string of ASCII digits.\<close>

definition digit_val :: "char \<Rightarrow> int" where
  "digit_val c = (case map_of (zip ''0123456789'' [0, 1, 2, 3, 4, 5, 6, 7, 8, 9]) c of
     Some d \<Rightarrow> d | None \<Rightarrow> 0)"

definition int_of_digits :: "string \<Rightarrow> int" where
  "int_of_digits ds = foldl (\<lambda>n c. 10 * n + digit_val c) 0 ds"

text \<open>\<open>[p for p in re.split(r"\s+", s) if p]\<close>: the maximal runs of non-space characters.\<close>

fun split_ws :: "string \<Rightarrow> string \<Rightarrow> string list" where
  "split_ws cur [] = (if cur = [] then [] else [rev cur])"
| "split_ws cur (c # cs) =
     (if is_space c then (if cur = [] then split_ws [] cs else rev cur # split_ws [] cs)
      else split_ws (c # cur) cs)"

section \<open>Header row and header map\<close>

definition row_has_anchor :: "(string \<Rightarrow> string) \<Rightarrow> string \<Rightarrow> row \<Rightarrow> bool" where
  "row_has_anchor normalise anchor r = list_ex (\<lambda>c. normalise (get_cell_text c) = anchor) r"

fun scan_rows :: "(row \<Rightarrow> bool) \<Rightarrow> nat \<Rightarrow> row list \<Rightarrow> nat option" where
  "scan_rows P i [] = None"
| "scan_rows P i (r # rs) = (if P r then Some i else scan_rows P (Suc i) rs)"

text \<open>
  \<open>find_header_row_index\<close> is the same loop in both programs; they differ in how the cell
  text is normalised before it is compared with the anchor: \<open>str.strip\<close> in fix_sheet.py,
  \<open>normalize_cell\<close> (Unicode NFKC and whitespace folding, a library function taken as the
  parameter \<open>normalise\<close>) in build_main_from_wires.py. The loop runs over
  \<open>range(min(scan_limit, len(rows)))\<close>, which is empty for a negative limit, and raises
  \<open>RuntimeError("Header row not found ...")\<close> when it falls through.
\<close>

definition find_header_row_index_with ::
    "(string \<Rightarrow> string) \<Rightarrow> table \<Rightarrow> string \<Rightarrow> int \<Rightarrow> error + nat" where
  "find_header_row_index_with normalise rows anchor scan_limit =
     (case scan_rows (row_has_anchor normalise anchor) 0
             (take (nat (min scan_limit (int (length rows)))) rows) of
        Some i \<Rightarrow> Inr i
      | None \<Rightarrow> Inl HeaderNotFound)"

definition find_header_row_index :: "table \<Rightarrow> string \<Rightarrow> int \<Rightarrow> error + nat" where
  "find_header_row_index = find_header_row_index_with strip"

definition header_map :: "row \<Rightarrow> string \<Rightarrow> int option" where
  "header_map r =
     dict_get (filter (\<lambda>(t, pos). t \<noteq> [])
       (map (\<lambda>(pos, k). (strip (get_cell_text (r ! k)), pos)) (enumerate_cells_with_positions r)))"

section \<open>File names and the parsing patterns\<close>

text \<open>
  \<open>os.path.basename\<close> and \<open>os.path.splitext\<close> as \<open>posixpath\<close> defines them: the base name
  is what follows the last slash, and the extension starts at the last dot of the base
  name unless only dots stand before it.
\<close>

definition basename :: "string \<Rightarrow> string" where
  "basename p = rev (takeWhile (\<lambda>c. c \<noteq> CHR ''/'') (rev p))"

definition splitext_root :: "string \<Rightarrow> string" where
  "splitext_root b =
     (case dropWhile (\<lambda>c. c \<noteq> CHR ''.'') (rev b) of
        [] \<Rightarrow> b
      | dot # front \<Rightarrow> if list_all (\<lambda>c. c = CHR ''.'') front then b else rev front)"

definition file_base :: "string \<Rightarrow> string" where
  "file_base fname = splitext_root (basename fname)"

text \<open>
  \<open>_section_re.search\<close>, pattern \<open>[sS]\d+[A-Za-z]?\<close>: the leftmost \<open>s\<close> or \<open>S\<close> that a digit
  follows, all the digits after it, and one letter when a letter comes next.
\<close>

fun section_search :: "string \<Rightarrow> string option" where
  "section_search [] = None"
| "section_search (c # cs) =
     (if (c = CHR ''s'' \<or> c = CHR ''S'') \<and> takeWhile is_digit cs \<noteq> []
      then Some (c # takeWhile is_digit cs @
             (case dropWhile is_digit cs of
                [] \<Rightarrow> []
              | d # _ \<Rightarrow> if is_alpha d then [d] else []))
      else section_search cs)"

text \<open>
  \<open>_panel_re.search\<close>, pattern \<open>[pP][A-Za-z0-9]+\<close>: the leftmost \<open>p\<close> or \<open>P\<close> that an
  alphanumeric character follows, with the whole alphanumeric run after it.
\<close>

fun panel_search :: "string \<Rightarrow> string option" where
  "panel_search [] = None"
| "panel_search (c # cs) =
     (if (c = CHR ''p'' \<or> c = CHR ''P'') \<and> takeWhile is_alnum cs \<noteq> []
      then Some (c # takeWhile is_alnum cs)
      else panel_search cs)"

definition parse_section_panel_from_filename :: "string \<Rightarrow> string \<times> string" where
  "parse_section_panel_from_filename fname =
     (let base = file_base fname
      in ((case section_search base of Some s \<Rightarrow> s | None \<Rightarrow> ''null''),
          (case panel_search base of Some p \<Rightarrow> p | None \<Rightarrow> ''null'')))"

text \<open>
  \<open>_wireid_re.match\<close>, pattern \<open>^\s*(\d+)\s*-\s*([A-Za-z]+)\s*$\<close>. Each part of the pattern
  excludes the first character of the next part, so the greedy reading is the only one.
\<close>

definition wireid_match :: "string \<Rightarrow> (string \<times> string) option" where
  "wireid_match s =
     (let s1 = dropWhile is_space s;
          ds = takeWhile is_digit s1
      in if ds = [] then None
         else (case dropWhile is_space (dropWhile is_digit s1) of
                 [] \<Rightarrow> None
               | h # s3 \<Rightarrow>
                   if h = CHR ''-'' then
                     (let s4 = dropWhile is_space s3;
                          ls = takeWhile is_alpha s4
                      in if ls \<noteq> [] \<and> dropWhile is_space (dropWhile is_alpha s4) = []
                         then Some (ds, ls) else None)
                   else None))"

definition parse_gc :: "string \<Rightarrow> string" where
  "parse_gc text = (case wireid_match (strip text) of Some (g, c) \<Rightarrow> g @ c | None \<Rightarrow> ''null'')"

text \<open>\<open>_job_re.match\<close>, pattern \<open>^\s*([A-Za-z0-9]+)\<close>.\<close>

definition job_match :: "string \<Rightarrow> string option" where
  "job_match s =
     (let t = takeWhile is_alnum (dropWhile is_space s) in if t = [] then None else Some t)"

text \<open>
  \<open>re.search(r"([0-9]{4,}[A-Za-z]?)", base)\<close>: the leftmost run of four or more digits,
  with the letter after it when there is one.
\<close>

fun job_search :: "string \<Rightarrow> string option" where
  "job_search [] = None"
| "job_search (c # cs) =
     (let ds = takeWhile is_digit (c # cs)
      in if 4 \<le> length ds
         then Some (ds @ (case dropWhile is_digit (c # cs) of
                           [] \<Rightarrow> []
                         | d # _ \<Rightarrow> if is_alpha d then [d] else []))
         else job_search cs)"

text \<open>
  \<open>_parse_panel_gauge_from_p_token\<close>: \<open>re.match(r"[pP]([A-Za-z])(\d{1,2})$", p_token)\<close>, where
  \<open>$\<close> also matches before a final newline. The \<open>except\<close> branch of the source is never
  taken, since \<open>int\<close> accepts every string of digits.
\<close>

definition parse_panel_gauge_from_p_token :: "string \<Rightarrow> string option \<times> int option" where
  "parse_panel_gauge_from_p_token p_token =
     (case p_token of
        p # l # rest \<Rightarrow>
          (let ds = takeWhile is_digit rest; tl = dropWhile is_digit rest
           in if (p = CHR ''p'' \<or> p = CHR ''P'') \<and> is_alpha l \<and> ds \<noteq> [] \<and> length ds \<le> 2
                 \<and> (tl = [] \<or> tl = [CHR 0x0A])
              then (Some (upper [l]), Some (int_of_digits ds))
              else (None, None))
      | _ \<Rightarrow> (None, None))"

text \<open>
  \<open>_extract_gauge_from_wire_id\<close>: \<open>re.search(r"\b(\d{1,2})\b", text)\<close>. A match starts at a
  digit that no word character precedes; it is two digits long when a second digit
  follows and no word character comes after that, one digit long when no word character
  follows the first. \<open>prev_word\<close> tells whether the character before the current position
  is a word character.
\<close>

fun gauge_search :: "bool \<Rightarrow> string \<Rightarrow> string option" where
  "gauge_search prev_word [] = None"
| "gauge_search prev_word (c # cs) =
     (if is_digit c \<and> \<not> prev_word then
        (case cs of
           [] \<Rightarrow> Some [c]
         | d # ds \<Rightarrow>
             if is_digit d then
               (case ds of
                  [] \<Rightarrow> Some [c, d]
                | e # _ \<Rightarrow> if is_word e then gauge_search (is_word c) cs else Some [c, d])
             else if is_word d then gauge_search (is_word c) cs
             else Some [c])
      else gauge_search (is_word c) cs)"

definition extract_gauge_from_wire_id :: "string \<Rightarrow> int option" where
  "extract_gauge_from_wire_id text = map_option int_of_digits (gauge_search False text)"

text \<open>
  \<open>_first_last_endpoint_tokens\<close>: the first and the last whitespace-separated part of the
  Article ID, each cut at its first colon.
\<close>

definition before_colon :: "string \<Rightarrow> string" where
  "before_colon p = takeWhile (\<lambda>c. c \<noteq> CHR '':'') p"

definition first_last_endpoint_tokens :: "string \<Rightarrow> string option \<times> string option" where
  "first_last_endpoint_tokens aid =
     (case split_ws [] (strip aid) of
        [] \<Rightarrow> (None, None)
      | p # ps \<Rightarrow> (Some (before_colon p), Some (before_colon (last (p # ps)))))"

text \<open>
  \<open>ARTICLE_TOKEN_RE.fullmatch\<close>, case-insensitive, pattern
  \<open>\b(?:PSS[1-4]|(?:VMSS|AMSS|WM|FM|86)(?:[AB])?|[A-Z0-9]*CBCS(?:[AB])?)\b\<close>.
  A full match is a member of one of the three alternatives; each starts and ends with
  a word character, so both \<open>\b\<close> hold at the ends of the string.
\<close>

definition ends_with :: "string \<Rightarrow> string \<Rightarrow> bool" where
  "ends_with s suffix = (length suffix \<le> length s \<and> drop (length s - length suffix) s = suffix)"

definition cbcs_match :: "string \<Rightarrow> string \<Rightarrow> bool" where
  "cbcs_match u suffix =
     (ends_with u suffix \<and> list_all is_alnum (take (length u - length suffix) u))"

definition article_token_fullmatch :: "string \<Rightarrow> bool" where
  "article_token_fullmatch s =
     (let u = upper s
      in u \<in> set [''PSS1'', ''PSS2'', ''PSS3'', ''PSS4'']
         \<or> u \<in> set [''VMSS'', ''AMSS'', ''WM'', ''FM'', ''86'',
                     ''VMSSA'', ''AMSSA'', ''WMA'', ''FMA'', ''86A'',
                     ''VMSSB'', ''AMSSB'', ''WMB'', ''FMB'', ''86B'']
         \<or> cbcs_match u ''CBCS'' \<or> cbcs_match u ''CBCSA'' \<or> cbcs_match u ''CBCSB'')"

definition token_matches_endpoint :: "string option \<Rightarrow> bool" where
  "token_matches_endpoint tok =
     (case tok of None \<Rightarrow> False | Some t \<Rightarrow> t \<noteq> [] \<and> article_token_fullmatch (upper t))"

definition has_plcio :: "string \<Rightarrow> bool" where
  "has_plcio text = py_in ''PLCIO'' (upper text)"

section \<open>Running a fixer over the data rows\<close>

text \<open>
  Every fixer starts the same way: it finds the header row (default anchor \<open>Order ID\<close>,
  scan limit 80), builds the header map from it, and then loops over the rows after
  the header row, mutating them in place. A fixer returns the number of changes; what
  it prints is returned here as a list of warnings. The \<open>Table\<close> element is taken to
  exist (without it the source raises at once).
\<close>

datatype warning =
    Warn_header_not_found string
  | Warn_missing_wire_id_or_printer1_id
  | Warn_missing_header string
  | Warn_missing_wire_length
  | Warn_missing_wire_id_cannot_split
  | Warn_article_id_not_found

record report =
  warnings :: "warning list"
  tree :: table
  changed :: nat

definition find_header :: "table \<Rightarrow> string \<Rightarrow> error + (nat \<times> (string \<Rightarrow> int option))" where
  "find_header rows header_anchor =
     (case find_header_row_index rows header_anchor 80 of
        Inl e \<Rightarrow> Inl e
      | Inr hdr_idx \<Rightarrow> Inr (hdr_idx, header_map (rows ! hdr_idx)))"

text \<open>\<open>for r in rows[hdr_idx + 1:]\<close> with a body that mutates \<open>r\<close> and counts.\<close>

definition on_data_rows :: "nat \<Rightarrow> (row \<Rightarrow> row \<times> nat) \<Rightarrow> table \<Rightarrow> table \<times> nat" where
  "on_data_rows hdr_idx f rows =
     (let rs = map f (drop (Suc hdr_idx) rows)
      in (take (Suc hdr_idx) rows @ map fst rs, sum_list (map snd rs)))"

section \<open>The row fixers\<close>

definition clear_cell_row :: "int \<Rightarrow> row \<Rightarrow> row \<times> nat" where
  "clear_cell_row col r =
     (case pos2cell r col of
        None \<Rightarrow> (r, 0)
      | Some k \<Rightarrow>
          if get_cell_text (r ! k) \<noteq> [] then (set_text_at r k [] ''String'', 1) else (r, 0))"

definition clear_printer_column ::
    "nat \<Rightarrow> (string \<Rightarrow> int option) \<Rightarrow> string \<Rightarrow> report \<Rightarrow> report" where
  "clear_printer_column hdr_idx hdr name st =
     (case hdr name of
        None \<Rightarrow> st\<lparr>warnings := warnings st @ [Warn_header_not_found name]\<rparr>
      | Some col \<Rightarrow>
          (let (rows', n) = on_data_rows hdr_idx (clear_cell_row col) (tree st)
           in st\<lparr>tree := rows', changed := changed st + n\<rparr>))"

definition clear_printer_texts :: "table \<Rightarrow> string \<Rightarrow> error + report" where
  "clear_printer_texts rows header_anchor =
     (case find_header rows header_anchor of
        Inl e \<Rightarrow> Inl e
      | Inr (hdr_idx, hdr) \<Rightarrow>
          Inr (clear_printer_column hdr_idx hdr ''Printer1 Wire1 EndText''
                (clear_printer_column hdr_idx hdr ''Printer1 Wire1 BeginText''
                  \<lparr>warnings = [], tree = rows, changed = 0\<rparr>)))"

definition printer1_row :: "int \<Rightarrow> int \<Rightarrow> row \<Rightarrow> row \<times> nat" where
  "printer1_row col_wire col_prn r =
     (let wire_text = strip (text_at r col_wire)
      in if wire_text = [] then (r, 0)
         else (let cleaned = filter (\<lambda>c. c \<noteq> CHR ''-'' \<and> c \<noteq> CHR '' '') wire_text;
                   new_val = ''AWG '' @ cleaned;
                   (r1, k) = get_or_create_cell_at_position r col_prn
               in if get_cell_text (r1 ! k) \<noteq> new_val
                  then (set_text_at r1 k new_val ''String'', 1)
                  else (r1, 0)))"

definition set_printer1_from_wireid :: "table \<Rightarrow> string \<Rightarrow> error + report" where
  "set_printer1_from_wireid rows header_anchor =
     (case find_header rows header_anchor of
        Inl e \<Rightarrow> Inl e
      | Inr (hdr_idx, hdr) \<Rightarrow>
          (case (hdr ''Wire ID'', hdr ''Printer1 ID'') of
             (Some col_wire, Some col_prn) \<Rightarrow>
               (let (rows', n) = on_data_rows hdr_idx (printer1_row col_wire col_prn) rows
                in Inr \<lparr>warnings = [], tree = rows', changed = n\<rparr>)
           | _ \<Rightarrow>
               Inr \<lparr>warnings = [Warn_missing_wire_id_or_printer1_id], tree = rows,
                     changed = 0\<rparr>))"

text \<open>
  The label that \<open>set_article_group\<close> computes for a row: \<open>job\<close> is the leading
  alphanumeric token of the current label, else the job number found in the file name,
  else \<open>null\<close>; the suffix is section, panel and gauge-colour, or \<open>null\<close> when one of the
  three is \<open>null\<close>.
\<close>

definition article_group_job :: "string \<Rightarrow> string \<Rightarrow> string" where
  "article_group_job cur_ag base =
     (case job_match cur_ag of
        Some j \<Rightarrow> j
      | None \<Rightarrow> (case job_search base of Some j \<Rightarrow> j | None \<Rightarrow> ''null''))"

definition article_group_suffix :: "string \<Rightarrow> string \<Rightarrow> string \<Rightarrow> string" where
  "article_group_suffix section panel gc =
     (if section \<noteq> ''null'' \<and> panel \<noteq> ''null'' \<and> gc \<noteq> ''null''
      then section @ panel @ gc else ''null'')"

definition article_group_row :: "string \<Rightarrow> string \<Rightarrow> string \<Rightarrow> int \<Rightarrow> int \<Rightarrow> row \<Rightarrow> row \<times> nat" where
  "article_group_row section panel base col_ag col_wire r =
     (let cur_ag = text_at r col_ag;
          job = article_group_job cur_ag base;
          gc = parse_gc (text_at r col_wire);
          final = job @ '' '' @ article_group_suffix section panel gc;
          (r1, k) = get_or_create_cell_at_position r col_ag
      in if get_cell_text (r1 ! k) \<noteq> final
         then (set_text_at r1 k final ''String'', 1)
         else (r1, 0))"

definition set_article_group :: "table \<Rightarrow> string \<Rightarrow> string \<Rightarrow> error + report" where
  "set_article_group rows source_path header_anchor =
     (case find_header rows header_anchor of
        Inl e \<Rightarrow> Inl e
      | Inr (hdr_idx, hdr) \<Rightarrow>
          (case hdr ''Article Group'' of
             None \<Rightarrow>
               Inr \<lparr>warnings = [Warn_missing_header ''Article Group''], tree = rows,
                     changed = 0\<rparr>
           | Some col_ag \<Rightarrow>
               (case hdr ''Wire ID'' of
                  None \<Rightarrow>
                    Inr \<lparr>warnings = [Warn_missing_header ''Wire ID''], tree = rows,
                          changed = 0\<rparr>
                | Some col_wire \<Rightarrow>
                    (let (section, panel) = parse_section_panel_from_filename source_path;
                         base = file_base source_path;
                         (rows', n) = on_data_rows hdr_idx
                            (article_group_row section panel base col_ag col_wire) rows
                     in Inr \<lparr>warnings = [], tree = rows', changed = n\<rparr>))))"

text \<open>
  \<open>set_last_three_distances\<close> writes \<open>str(0.79)\<close>, \<open>str(4)\<close> and \<open>str(0.79)\<close>, typed
  \<open>Number\<close>, and counts every cell it rewrites.
\<close>

definition set_number_cell :: "int \<Rightarrow> string \<Rightarrow> row \<times> nat \<Rightarrow> row \<times> nat" where
  "set_number_cell col v st =
     (let (r1, k) = get_or_create_cell_at_position (fst st) col
      in if get_cell_text (r1 ! k) \<noteq> v
         then (set_text_at r1 k v ''Number'', snd st + 1)
         else (r1, snd st))"

definition distances_row :: "int \<Rightarrow> int \<Rightarrow> int \<Rightarrow> row \<Rightarrow> row \<times> nat" where
  "distances_row c1 c2 c3 r =
     set_number_cell c3 ''0.79'' (set_number_cell c2 ''4'' (set_number_cell c1 ''0.79'' (r, 0)))"

definition set_last_three_distances :: "table \<Rightarrow> string \<Rightarrow> error + report" where
  "set_last_three_distances rows header_anchor =
     (case find_header rows header_anchor of
        Inl e \<Rightarrow> Inl e
      | Inr (hdr_idx, hdr) \<Rightarrow>
          (case hdr ''Printer1 Wire1 BeginDistance'' of
             None \<Rightarrow>
               Inr \<lparr>warnings = [Warn_missing_header ''Printer1 Wire1 BeginDistance''],
                     tree = rows, changed = 0\<rparr>
           | Some c1 \<Rightarrow>
               (case hdr ''Printer1 Wire1 EndlessDistance'' of
                  None \<Rightarrow>
                    Inr \<lparr>warnings = [Warn_missing_header ''Printer1 Wire1 EndlessDistance''],
                          tree = rows, changed = 0\<rparr>
                | Some c2 \<Rightarrow>
                    (case hdr ''Printer1 Wire1 EndDistance'' of
                       None \<Rightarrow>
                         Inr \<lparr>warnings = [Warn_missing_header ''Printer1 Wire1 EndDistance''],
                               tree = rows, changed = 0\<rparr>
                     | Some c3 \<Rightarrow>
                         (let (rows', n) = on_data_rows hdr_idx (distances_row c1 c2 c3) rows
                          in Inr \<lparr>warnings = [], tree = rows', changed = n\<rparr>)))))"

definition wire_length_row :: "int \<Rightarrow> row \<Rightarrow> row \<times> nat" where
  "wire_length_row col_len r =
     (case pos2cell r col_len of
        None \<Rightarrow> (r, 0)
      | Some k \<Rightarrow>
          if strip (get_cell_text (r ! k)) = ''300''
          then (set_text_at r k ''200'' ''Number'', 1)
          else (r, 0))"

definition fix_wire_length_for_null_files :: "table \<Rightarrow> string \<Rightarrow> string \<Rightarrow> error + report" where
  "fix_wire_length_for_null_files rows source_path header_anchor =
     (if \<not> py_in ''null'' (basename source_path)
      then Inr \<lparr>warnings = [], tree = rows, changed = 0\<rparr>
      else (case find_header rows header_anchor of
              Inl e \<Rightarrow> Inl e
            | Inr (hdr_idx, hdr) \<Rightarrow>
                (case hdr ''Wire Length'' of
                   None \<Rightarrow>
                     Inr \<lparr>warnings = [Warn_missing_wire_length], tree = rows, changed = 0\<rparr>
                 | Some col_len \<Rightarrow>
                     (let (rows', n) = on_data_rows hdr_idx (wire_length_row col_len) rows
                      in Inr \<lparr>warnings = [], tree = rows', changed = n\<rparr>))))"

section \<open>The crimp engine\<close>

text \<open>
  \<open>set_cell_text(get_or_create_cell_at_position(r, k), "", "String")\<close> for the two left
  neighbours of the column that was written.
\<close>

definition blank_cell :: "row \<Rightarrow> int \<Rightarrow> row" where
  "blank_cell r col =
     (let (r1, k) = get_or_create_cell_at_position r col in set_text_at r1 k [] ''String'')"

definition blank_neighbours :: "row \<Rightarrow> int \<Rightarrow> int \<Rightarrow> row" where
  "blank_neighbours r k1 k2 = blank_cell (blank_cell r k1) k2"

subsection \<open>The hardcoded strategy\<close>

text \<open>
  The body of the row loop of \<open>apply_auto_crimp_endpoints\<close>. Python's \<open>if x.strip()\<close>
  tests that the stripped text is not empty.
\<close>

definition auto_crimp_row ::
    "string option \<Rightarrow> int option \<Rightarrow> int \<Rightarrow> int \<Rightarrow> string \<Rightarrow> string \<Rightarrow> row \<Rightarrow> row \<times> nat" where
  "auto_crimp_row panel_letter gauge_from_name col_wire col_aid crimp_id prefer_when_both r =
     (let gauge_ok = (gauge_from_name = Some 14
                      \<or> extract_gauge_from_wire_id (text_at r col_wire) = Some 14)
      in if \<not> gauge_ok then (r, 0)
      else if panel_letter \<noteq> None \<and> panel_letter \<noteq> Some ''C'' then (r, 0)
      else (let aid = strip (text_at r col_aid)
      in if aid = [] then (r, 0)
      else (let (ltok, rtok) = first_last_endpoint_tokens aid;
                left_ok = token_matches_endpoint ltok;
                right_ok = token_matches_endpoint rtok
      in if \<not> left_ok \<and> \<not> right_ok then (r, 0)
      else (let v15 = text_at r 15; v19 = text_at r 19
      in if strip v15 \<noteq> [] \<and> strip v19 \<noteq> [] then (r, 0)
      else if strip v15 \<noteq> [] \<and> strip v15 \<noteq> crimp_id then (r, 0)
      else if strip v19 \<noteq> [] \<and> strip v19 \<noteq> crimp_id then (r, 0)
      else (let prefer_col = (if lower prefer_when_both = ''left'' then 15 else 19);
                target0 = (if left_ok \<and> right_ok then prefer_col
                           else if left_ok then 15 else 19);
                target = (if target0 = 15 \<and> strip v15 \<noteq> [] \<and> strip v19 = [] then 19
                          else if target0 = 19 \<and> strip v19 \<noteq> [] \<and> strip v15 = [] then 15
                          else target0);
                (r1, k) = get_or_create_cell_at_position r target
      in if strip (get_cell_text (r1 ! k)) = []
         then (let r2 = set_text_at r1 k crimp_id ''String''
               in (if target = 15 then blank_neighbours r2 14 13
                   else blank_neighbours r2 18 17, 1))
         else (r1, 0))))))"

text \<open>
  \<open>apply_auto_crimp_endpoints\<close>. A missing \<open>Wire ID\<close> or \<open>Article ID\<close> header falls back to
  column 11 or 6. The two early returns test \<open>panel_letter\<close> and \<open>gauge_from_name\<close> for
  truth first: a panel letter is true when it is there, a gauge when it is there and
  not zero.
\<close>

definition apply_auto_crimp_endpoints ::
    "table \<Rightarrow> string \<Rightarrow> string \<Rightarrow> string \<Rightarrow> string \<Rightarrow> error + report" where
  "apply_auto_crimp_endpoints rows source_path header_anchor crimp_id prefer_when_both =
     (case find_header rows header_anchor of
        Inl e \<Rightarrow> Inl e
      | Inr (hdr_idx, hdr) \<Rightarrow>
          (let col_wire = (case hdr ''Wire ID'' of Some c \<Rightarrow> c | None \<Rightarrow> 11);
               col_aid = (case hdr ''Article ID'' of Some c \<Rightarrow> c | None \<Rightarrow> 6);
               (section_token, panel_token) = parse_section_panel_from_filename source_path;
               (panel_letter, gauge_from_name) = parse_panel_gauge_from_p_token panel_token
           in if panel_letter \<noteq> None \<and> panel_letter \<noteq> Some ''C''
              then Inr \<lparr>warnings = [], tree = rows, changed = 0\<rparr>
              else if gauge_from_name \<noteq> None \<and> gauge_from_name \<noteq> Some 0
                      \<and> gauge_from_name \<noteq> Some 14
              then Inr \<lparr>warnings = [], tree = rows, changed = 0\<rparr>
              else (let (rows', n) = on_data_rows hdr_idx
                          (auto_crimp_row panel_letter gauge_from_name col_wire col_aid
                             crimp_id prefer_when_both) rows
                    in Inr \<lparr>warnings = [], tree = rows', changed = n\<rparr>)))"

subsection \<open>The declarative rules\<close>

text \<open>
  A rule as \<open>load_rules_file\<close> hands it over. A compiled pattern is taken as the
  predicate \<open>tok \<mapsto> r.search(tok) is not None\<close>. A key that the source reads with
  \<open>rule.get\<close> and then tests for truth (\<open>panels\<close>, \<open>gauges\<close>, \<open>prefer_when_both\<close>, the token
  lists) is the empty list when it is absent; the column overrides are optional; a rule
  without \<open>crimp_id\<close> raises \<open>KeyError\<close> where the source first reads it.
\<close>

record crimp_rule =
  panels :: "string list"
  gauges :: "int list"
  tokens_left :: "(string \<Rightarrow> bool) list"
  tokens_right :: "(string \<Rightarrow> bool) list"
  tokens_any :: "(string \<Rightarrow> bool) list"
  rule_prefer_when_both :: string
  column_left :: "int option"
  column_right :: "int option"
  crimp_id :: "string option"

definition rule_matches_panel_gauge ::
    "crimp_rule \<Rightarrow> string option \<Rightarrow> int option \<Rightarrow> string \<Rightarrow> bool" where
  "rule_matches_panel_gauge rule panel_letter filename_gauge wire_id_text =
     (if panels rule \<noteq> [] \<and> panel_letter \<noteq> None
         \<and> upper (case_option [] id panel_letter) \<notin> set (map upper (panels rule))
      then False
      else if gauges rule \<noteq> []
      then ((case filename_gauge of Some g \<Rightarrow> g \<in> set (gauges rule) | None \<Rightarrow> False)
            \<or> (case extract_gauge_from_wire_id wire_id_text of
                  Some g \<Rightarrow> g \<in> set (gauges rule) | None \<Rightarrow> False))
      else True)"

definition any_match :: "string option \<Rightarrow> (string \<Rightarrow> bool) list \<Rightarrow> bool" where
  "any_match tok regexes =
     (case tok of None \<Rightarrow> False | Some t \<Rightarrow> t \<noteq> [] \<and> list_ex (\<lambda>search. search t) regexes)"

definition decide_side_by_rule ::
    "crimp_rule \<Rightarrow> string option \<Rightarrow> string option \<Rightarrow> string \<Rightarrow> int option" where
  "decide_side_by_rule rule ltok rtok prefer =
     (let left0 = any_match ltok (tokens_left rule);
          right0 = any_match rtok (tokens_right rule);
          use_any = (\<not> left0 \<and> \<not> right0 \<and> tokens_any rule \<noteq> []);
          left = (if use_any then any_match ltok (tokens_any rule) else left0);
          right = (if use_any then any_match rtok (tokens_any rule) else right0)
      in if left \<and> right then Some (if prefer = ''left'' then 15 else 19)
         else if left then Some 15
         else if right then Some 19
         else None)"

text \<open>
  Lines 424 to 457 of \<open>apply_crimp_rules\<close>: what the first rule that matches the row and
  decides a side does to the row. Every path ends in \<open>break\<close>.
\<close>

text \<open>\<open>int(cols.get("left", 15))\<close> and \<open>int(cols.get("right", 19))\<close>.\<close>

definition left_col_of :: "crimp_rule \<Rightarrow> int" where
  "left_col_of rule = (case column_left rule of Some c \<Rightarrow> c | None \<Rightarrow> 15)"

definition right_col_of :: "crimp_rule \<Rightarrow> int" where
  "right_col_of rule = (case column_right rule of Some c \<Rightarrow> c | None \<Rightarrow> 19)"

definition differs_from_crimp_id :: "crimp_rule \<Rightarrow> string \<Rightarrow> error + bool" where
  "differs_from_crimp_id rule v =
     (case crimp_id rule of None \<Rightarrow> Inl KeyError | Some c \<Rightarrow> Inr (v \<noteq> c))"

definition write_crimp :: "crimp_rule \<Rightarrow> int \<Rightarrow> int \<Rightarrow> int \<Rightarrow> row \<Rightarrow> error + (row \<times> nat)" where
  "write_crimp rule left_col right_col target_col r =
     (let (r1, k) = get_or_create_cell_at_position r target_col
      in if strip (get_cell_text (r1 ! k)) = []
         then (case crimp_id rule of
                 None \<Rightarrow> Inl KeyError
               | Some c \<Rightarrow>
                   (let r2 = set_text_at r1 k c ''String''
                    in Inr (if target_col = left_col
                            then blank_neighbours r2 (left_col - 1) (left_col - 2)
                            else blank_neighbours r2 (right_col - 1) (right_col - 2), 1)))
         else Inr (r1, 0))"

definition apply_rule :: "crimp_rule \<Rightarrow> int \<Rightarrow> row \<Rightarrow> error + (row \<times> nat)" where
  "apply_rule rule target r =
     (let left_col = left_col_of rule;
          right_col = right_col_of rule;
          target_col = (if target = 15 then left_col else right_col);
          (r1, kl) = get_or_create_cell_at_position r left_col;
          v_left = get_cell_text (r1 ! kl);
          (r2, kr) = get_or_create_cell_at_position r1 right_col;
          v_right = get_cell_text (r2 ! kr)
      in if strip v_left \<noteq> [] \<and> strip v_right \<noteq> [] then Inr (r2, 0)
         else (case (if strip v_left \<noteq> [] \<and> target_col = left_col
                     then differs_from_crimp_id rule (strip v_left) else Inr False) of
                 Inl e \<Rightarrow> Inl e
               | Inr True \<Rightarrow> Inr (r2, 0)
               | Inr False \<Rightarrow>
          (case (if strip v_right \<noteq> [] \<and> target_col = right_col
                 then differs_from_crimp_id rule (strip v_right) else Inr False) of
             Inl e \<Rightarrow> Inl e
           | Inr True \<Rightarrow> Inr (r2, 0)
           | Inr False \<Rightarrow>
               (let target_col' =
                      (if target_col = left_col \<and> strip v_left \<noteq> [] \<and> strip v_right = []
                       then right_col
                       else if target_col = right_col \<and> strip v_right \<noteq> [] \<and> strip v_left = []
                       then left_col
                       else target_col)
                in write_crimp rule left_col right_col target_col' r2))))"

text \<open>The loop over the rules for one row: the first rule that matches and decides a side.\<close>

fun try_rules ::
    "crimp_rule list \<Rightarrow> string \<Rightarrow> string option \<Rightarrow> int option \<Rightarrow> string \<Rightarrow>
     string option \<Rightarrow> string option \<Rightarrow> row \<Rightarrow> error + (row \<times> nat)" where
  "try_rules [] prefer_default panel_letter filename_gauge wire_txt ltok rtok r = Inr (r, 0)"
| "try_rules (rule # rest) prefer_default panel_letter filename_gauge wire_txt ltok rtok r =
     (if \<not> rule_matches_panel_gauge rule panel_letter filename_gauge wire_txt
      then try_rules rest prefer_default panel_letter filename_gauge wire_txt ltok rtok r
      else (let prefer = lower (if rule_prefer_when_both rule \<noteq> []
                                then rule_prefer_when_both rule else prefer_default)
            in case decide_side_by_rule rule ltok rtok prefer of
                 None \<Rightarrow>
                   try_rules rest prefer_default panel_letter filename_gauge wire_txt ltok rtok r
               | Some target \<Rightarrow> apply_rule rule target r))"

definition crimp_rules_row ::
    "crimp_rule list \<Rightarrow> string \<Rightarrow> string option \<Rightarrow> int option \<Rightarrow> int \<Rightarrow> int \<Rightarrow> row \<Rightarrow>
     error + (row \<times> nat)" where
  "crimp_rules_row rules prefer_default panel_letter filename_gauge col_wire col_aid r =
     (let wire_txt = text_at r col_wire;
          aid = strip (text_at r col_aid)
      in if aid = [] then Inr (r, 0)
         else (let (ltok, rtok) = first_last_endpoint_tokens aid
               in try_rules rules prefer_default panel_letter filename_gauge wire_txt
                    ltok rtok r))"

text \<open>The row loop with a body that may raise: the first error ends the run.\<close>

fun map_rows :: "(row \<Rightarrow> error + (row \<times> nat)) \<Rightarrow> row list \<Rightarrow> error + (row list \<times> nat)" where
  "map_rows f [] = Inr ([], 0)"
| "map_rows f (r # rs) =
     (case f r of
        Inl e \<Rightarrow> Inl e
      | Inr (r', n) \<Rightarrow>
          (case map_rows f rs of
             Inl e \<Rightarrow> Inl e
           | Inr (rs', m) \<Rightarrow> Inr (r' # rs', n + m)))"

text \<open>
  \<open>apply_crimp_rules\<close>. The rules file is its list of rules and its default preference
  (\<open>left\<close> when the file gives none).
\<close>

definition apply_crimp_rules ::
    "table \<Rightarrow> string \<Rightarrow> crimp_rule list \<Rightarrow> string \<Rightarrow> string \<Rightarrow> error + report" where
  "apply_crimp_rules rows source_path rules prefer_default header_anchor =
     (case find_header rows header_anchor of
        Inl e \<Rightarrow> Inl e
      | Inr (hdr_idx, hdr) \<Rightarrow>
          (let col_wire = (case hdr ''Wire ID'' of Some c \<Rightarrow> c | None \<Rightarrow> 11);
               col_aid = (case hdr ''Article ID'' of Some c \<Rightarrow> c | None \<Rightarrow> 6);
               (section_token, p_token) = parse_section_panel_from_filename source_path;
               (panel_letter, filename_gauge) = parse_panel_gauge_from_p_token p_token
           in case map_rows (crimp_rules_row rules prefer_default panel_letter filename_gauge
                               col_wire col_aid) (drop (Suc hdr_idx) rows) of
                Inl e \<Rightarrow> Inl e
              | Inr (rs', n) \<Rightarrow>
                  Inr \<lparr>warnings = [], tree = take (Suc hdr_idx) rows @ rs', changed = n\<rparr>))"

section \<open>The splitter\<close>

text \<open>
  \<open>groups.setdefault(key, []).append(r)\<close> on a dictionary that keeps its keys in the order
  of their first insertion.
\<close>

fun group_add :: "'k \<Rightarrow> 'v \<Rightarrow> ('k \<times> 'v list) list \<Rightarrow> ('k \<times> 'v list) list" where
  "group_add k v [] = [(k, [v])]"
| "group_add k v ((k', vs) # g) =
     (if k' = k then (k', vs @ [v]) # g else (k', vs) # group_add k v g)"

definition group_rows :: "('v \<Rightarrow> 'k) \<Rightarrow> 'v list \<Rightarrow> ('k \<times> 'v list) list" where
  "group_rows key rs = foldl (\<lambda>g r. group_add (key r) r g) [] rs"

text \<open>
  The key of a row: gauge and colour from the \<open>Wire ID\<close> column, and the PLCIO flag from
  the \<open>Article ID\<close> column when the header map has one (\<open>False\<close> otherwise).
\<close>

definition split_key :: "int \<Rightarrow> int option \<Rightarrow> row \<Rightarrow> string \<times> bool" where
  "split_key col_wire col_aid r =
     (parse_gc (text_at r col_wire),
      (case col_aid of None \<Rightarrow> False | Some c \<Rightarrow> has_plcio (text_at r c)))"

text \<open>
  The slice \<open>xs[a:b]\<close>: a negative bound counts from the end, and both bounds are clamped
  to the list.
\<close>

definition py_slice :: "'a list \<Rightarrow> int \<Rightarrow> int \<Rightarrow> 'a list" where
  "py_slice xs a b =
     (let n = int (length xs);
          lo = (if a < 0 then max 0 (a + n) else min a n);
          hi = (if b < 0 then max 0 (b + n) else min b n)
      in take (nat (hi - lo)) (drop (nat lo) xs))"

text \<open>
  \<open>max(1, math.ceil(total / max_per))\<close>. The quotient is a float in the source; it is
  exact enough for \<open>ceil\<close> to be the integer ceiling as long as the row count is below
  \<open>2^53\<close>, and the integer ceiling is what is written here. A zero \<open>max_per\<close> raises
  \<open>ZeroDivisionError\<close>.
\<close>

definition chunk_count :: "nat \<Rightarrow> int \<Rightarrow> error + nat" where
  "chunk_count n_rows max_per =
     (if max_per = 0 then Inl ZeroDivisionError
      else Inr (nat (max 1 (- ((- int n_rows) div max_per)))))"

definition chunks_of :: "'a list \<Rightarrow> int \<Rightarrow> error + 'a list list" where
  "chunks_of rs max_per =
     (case chunk_count (length rs) max_per of
        Inl e \<Rightarrow> Inl e
      | Inr chunks \<Rightarrow>
          Inr (map (\<lambda>i. py_slice rs (int i * max_per) ((int i + 1) * max_per)) [0..<chunks]))"

text \<open>The chunk suffix \<open>f"_{i+1:02d}"\<close>.\<close>

function decimal :: "nat \<Rightarrow> string" where
  "decimal n = (if n < 10 then [''0123456789'' ! n] else decimal (n div 10) @ [''0123456789'' ! (n mod 10)])"
  by pat_completeness auto
termination
  by (relation "measure id") auto

definition chunk_suffix :: "nat \<Rightarrow> string" where
  "chunk_suffix i =
     (let d = decimal (i + 1) in CHR ''_'' # replicate (2 - length d) CHR ''0'' @ d)"

text \<open>
  What \<open>split_by_gauge_color\<close> emits for one bucket: for each chunk the file name (without
  directory and extension) and the table written to it, which is the clone of the input
  up to and including the header row followed by the rows of the chunk.
\<close>

definition emit_bucket ::
    "table \<Rightarrow> nat \<Rightarrow> string \<Rightarrow> string \<Rightarrow> int \<Rightarrow> (string \<times> bool) \<times> row list \<Rightarrow>
     error + (string \<times> table) list" where
  "emit_bucket rows hdr_idx section panel max_per bucket =
     (case bucket of ((gc, is_plcio), rs) \<Rightarrow>
        (case chunks_of rs max_per of
           Inl e \<Rightarrow> Inl e
         | Inr cs \<Rightarrow>
             (let key = section @ panel @ gc @ (if is_plcio then ''_PLCIO'' else [])
              in Inr (map (\<lambda>(i, chunk).
                        (key @ (if 1 < length cs then chunk_suffix i else []),
                         take (Suc hdr_idx) rows @ chunk))
                      (zip [0..<length cs] cs)))))"

fun emit_buckets ::
    "table \<Rightarrow> nat \<Rightarrow> string \<Rightarrow> string \<Rightarrow> int \<Rightarrow> ((string \<times> bool) \<times> row list) list \<Rightarrow>
     error + (string \<times> table) list" where
  "emit_buckets rows hdr_idx section panel max_per [] = Inr []"
| "emit_buckets rows hdr_idx section panel max_per (b # bs) =
     (case emit_bucket rows hdr_idx section panel max_per b of
        Inl e \<Rightarrow> Inl e
      | Inr out \<Rightarrow>
          (case emit_buckets rows hdr_idx section panel max_per bs of
             Inl e \<Rightarrow> Inl e
           | Inr outs \<Rightarrow> Inr (out @ outs)))"

definition split_groups :: "nat \<Rightarrow> (string \<Rightarrow> int option) \<Rightarrow> int \<Rightarrow> table \<Rightarrow>
    ((string \<times> bool) \<times> row list) list" where
  "split_groups hdr_idx hdr col_wire rows =
     group_rows (split_key col_wire (hdr ''Article ID'')) (drop (Suc hdr_idx) rows)"

definition split_by_gauge_color ::
    "table \<Rightarrow> string \<Rightarrow> string \<Rightarrow> int \<Rightarrow> error + (warning list \<times> (string \<times> table) list)" where
  "split_by_gauge_color rows src header_anchor max_per =
     (case find_header rows header_anchor of
        Inl e \<Rightarrow> Inl e
      | Inr (hdr_idx, hdr) \<Rightarrow>
          (case hdr ''Wire ID'' of
             None \<Rightarrow> Inr ([Warn_missing_wire_id_cannot_split], [])
           | Some col_wire \<Rightarrow>
               (let (section, panel) = parse_section_panel_from_filename src
                in case emit_buckets rows hdr_idx section panel max_per
                          (split_groups hdr_idx hdr col_wire rows) of
                     Inl e \<Rightarrow> Inl e
                   | Inr outs \<Rightarrow>
                       Inr (if hdr ''Article ID'' = None then [Warn_article_id_not_found]
                            else [], outs))))"

section \<open>What a run of the crimp engine leaves of a row\<close>

text \<open>
  Two relations between a row before and after, both on what the position lookup reads
  (text and type of every column): nothing changed; or column \<open>t\<close>, blank before, now
  holds \<open>c\<close> typed \<open>String\<close>, columns \<open>t - 1\<close> and \<open>t - 2\<close> are empty strings typed
  \<open>String\<close>, and every other column reads as before.
\<close>

definition same_cells :: "row \<Rightarrow> row \<Rightarrow> bool" where
  "same_cells r r' = (\<forall>q. text_at r' q = text_at r q \<and> type_at r' q = type_at r q)"

definition crimp_written :: "row \<Rightarrow> row \<Rightarrow> int \<Rightarrow> string \<Rightarrow> bool" where
  "crimp_written r r' t c =
     (strip (text_at r t) = []
      \<and> (\<forall>q. text_at r' q =
            (if q = t - 1 \<or> q = t - 2 then [] else if q = t then c else text_at r q))
      \<and> (\<forall>q. type_at r' q =
            (if q = t - 1 \<or> q = t - 2 \<or> q = t then Some ''String'' else type_at r q)))"

definition rule_wrote :: "crimp_rule list \<Rightarrow> row \<Rightarrow> row \<Rightarrow> bool" where
  "rule_wrote rules r r' =
     (\<exists>rule t c. rule \<in> set rules \<and> (t = left_col_of rule \<or> t = right_col_of rule)
        \<and> crimp_id rule = Some c \<and> crimp_written r r' t c)"

section \<open>Example rows and tables\<close>

definition text_cell :: "int option \<Rightarrow> string \<Rightarrow> cell" where
  "text_cell i t = \<lparr>cindex = i, cdata = Some (t, ''String'')\<rparr>"

definition example_sparse_row :: row where
  "example_sparse_row = [text_cell None ''a'', \<lparr>cindex = Some 5, cdata = None\<rparr>]"

definition example_anchor_table :: table where
  "example_anchor_table =
     [[text_cell None ''Title''],
      [text_cell None ''Job'', text_cell (Some 3) '' Order ID ''],
      [text_cell None ''Order ID'']]"

definition example_header :: row where
  "example_header =
     [text_cell None ''Order ID'', text_cell (Some 6) ''Article ID'',
      text_cell (Some 11) ''Wire ID'']"

text \<open>
  One data row: Article ID \<open>PSS1 FOO\<close> (left endpoint token \<open>PSS1\<close>, right endpoint token
  \<open>FOO\<close>), Wire ID \<open>14-WHT\<close>, columns 15 and 19 absent.
\<close>

definition example_crimp_table :: table where
  "example_crimp_table =
     [example_header, [text_cell (Some 6) ''PSS1 FOO'', text_cell (Some 11) ''14-WHT'']]"

text \<open>The same table after one run and after two runs of the hardcoded strategy.\<close>

definition example_crimp_table_once :: table where
  "example_crimp_table_once =
     [example_header,
      [text_cell (Some 6) ''PSS1 FOO'', text_cell (Some 11) ''14-WHT'',
       text_cell (Some 15) ''018769-025'', text_cell (Some 14) [], text_cell (Some 13) []]]"

definition example_crimp_table_twice :: table where
  "example_crimp_table_twice =
     [example_header,
      [text_cell (Some 6) ''PSS1 FOO'', text_cell (Some 11) ''14-WHT'',
       text_cell (Some 15) ''018769-025'', text_cell (Some 14) [], text_cell (Some 13) [],
       text_cell (Some 19) ''018769-025'', text_cell (Some 18) [], text_cell (Some 17) []]]"

text \<open>
  A rule for panel C and gauge 14 whose left pattern finds \<open>PSS\<close> in a token, ignoring
  case; and the table after one and after two runs of the rule strategy, which also
  creates the cell of the other target column when it reads it.
\<close>

definition example_rule :: crimp_rule where
  "example_rule =
     \<lparr>panels = [''C''], gauges = [14],
      tokens_left = [\<lambda>tok. py_in ''PSS'' (upper tok)], tokens_right = [], tokens_any = [],
      rule_prefer_when_both = [], column_left = None, column_right = None,
      crimp_id = Some ''018769-025''\<rparr>"

definition example_rules_table_once :: table where
  "example_rules_table_once =
     [example_header,
      [text_cell (Some 6) ''PSS1 FOO'', text_cell (Some 11) ''14-WHT'',
       text_cell (Some 15) ''018769-025'', \<lparr>cindex = Some 19, cdata = None\<rparr>,
       text_cell (Some 14) [], text_cell (Some 13) []]]"

definition example_rules_table_twice :: table where
  "example_rules_table_twice =
     [example_header,
      [text_cell (Some 6) ''PSS1 FOO'', text_cell (Some 11) ''14-WHT'',
       text_cell (Some 15) ''018769-025'', text_cell (Some 19) ''018769-025'',
       text_cell (Some 14) [], text_cell (Some 13) [],
       text_cell (Some 18) [], text_cell (Some 17) []]]"

text \<open>
  Rows for the write protection of the crimp engine: column 15 holding another
  identifier; column 15 holding one space; and, for a rule whose columns are overridden
  to 18 and 19 and whose right pattern finds \<open>PSS\<close>, column 18 holding another
  identifier.
\<close>

definition example_assigned_table :: table where
  "example_assigned_table =
     [example_header,
      [text_cell (Some 6) ''PSS1 FOO'', text_cell (Some 11) ''14-WHT'',
       text_cell (Some 15) ''OTHER'']]"

definition example_space_table :: table where
  "example_space_table =
     [example_header,
      [text_cell (Some 6) ''PSS1 FOO'', text_cell (Some 11) ''14-WHT'',
       text_cell (Some 15) '' '']]"

definition example_override_rule :: crimp_rule where
  "example_override_rule =
     \<lparr>panels = [''C''], gauges = [14],
      tokens_left = [], tokens_right = [\<lambda>tok. py_in ''PSS'' (upper tok)], tokens_any = [],
      rule_prefer_when_both = [], column_left = Some 18, column_right = Some 19,
      crimp_id = Some ''018769-025''\<rparr>"

definition example_override_table :: table where
  "example_override_table =
     [example_header,
      [text_cell (Some 6) ''FOO PSS1'', text_cell (Some 11) ''14-WHT'',
       text_cell (Some 18) ''OTHER'']]"

definition example_space_table_after :: table where
  "example_space_table_after =
     [example_header,
      [text_cell (Some 6) ''PSS1 FOO'', text_cell (Some 11) ''14-WHT'',
       text_cell (Some 15) ''018769-025'', text_cell (Some 14) [], text_cell (Some 13) []]]"

definition example_override_table_after :: table where
  "example_override_table_after =
     [example_header,
      [text_cell (Some 6) ''FOO PSS1'', text_cell (Some 11) ''14-WHT'',
       text_cell (Some 18) [], text_cell (Some 19) ''018769-025'', text_cell (Some 17) []]]"

text \<open>
  A table for the row fixers: header row with \<open>Article Group\<close>, \<open>Wire ID\<close> and
  \<open>Wire Length\<close>; one data row with an empty Article Group, Wire ID \<open>18-WHT\<close> and Wire
  Length \<open>300\<close>.
\<close>

definition example_fixer_header :: row where
  "example_fixer_header =
     [text_cell None ''Order ID'', text_cell (Some 4) ''Article Group'',
      text_cell (Some 11) ''Wire ID'', text_cell None ''Wire Length'']"

definition example_fixer_table :: table where
  "example_fixer_table =
     [example_fixer_header,
      [text_cell (Some 4) [], text_cell (Some 11) ''18-WHT'', text_cell None ''300'']]"

definition example_length_fixed_table :: table where
  "example_length_fixed_table =
     [example_fixer_header,
      [text_cell (Some 4) [], text_cell (Some 11) ''18-WHT'',
       \<lparr>cindex = None, cdata = Some (''200'', ''Number'')\<rparr>]]"

definition example_group_fixed_table :: table where
  "example_group_fixed_table =
     [example_fixer_header,
      [text_cell (Some 4) ''null s5DpC1418WHT'', text_cell (Some 11) ''18-WHT'',
       text_cell None ''300'']]"

text \<open>
  Tables with headers missing: a header row that names only \<open>Order ID\<close>, over a data row
  with \<open>PSS1 FOO\<close> in column 6 and \<open>14-WHT\<close> in column 11; and a header row that names
  \<open>Printer1 Wire1 EndText\<close> but not \<open>Printer1 Wire1 BeginText\<close>.
\<close>

definition example_bare_table :: table where
  "example_bare_table =
     [[text_cell None ''Order ID''],
      [text_cell (Some 6) ''PSS1 FOO'', text_cell (Some 11) ''14-WHT'']]"

definition example_bare_table_crimped :: table where
  "example_bare_table_crimped =
     [[text_cell None ''Order ID''],
      [text_cell (Some 6) ''PSS1 FOO'', text_cell (Some 11) ''14-WHT'',
       text_cell (Some 15) ''018769-025'', text_cell (Some 14) [], text_cell (Some 13) []]]"

definition example_bare_table_rules :: table where
  "example_bare_table_rules =
     [[text_cell None ''Order ID''],
      [text_cell (Some 6) ''PSS1 FOO'', text_cell (Some 11) ''14-WHT'',
       text_cell (Some 15) ''018769-025'', \<lparr>cindex = Some 19, cdata = None\<rparr>,
       text_cell (Some 14) [], text_cell (Some 13) []]]"

definition example_endtext_table :: table where
  "example_endtext_table =
     [[text_cell None ''Order ID'', text_cell None ''Printer1 Wire1 EndText''],
      [text_cell None ''7'', text_cell None ''end text'']]"

definition example_endtext_table_cleared :: table where
  "example_endtext_table_cleared =
     [[text_cell None ''Order ID'', text_cell None ''Printer1 Wire1 EndText''],
      [text_cell None ''7'', text_cell None []]]"

text \<open>
  A table for the splitter: five data rows, three of them \<open>14-WHT\<close> without PLCIO, one
  \<open>14-WHT\<close> with PLCIO in its Article ID, one \<open>18-RED\<close>.
\<close>

definition example_split_table :: table where
  "example_split_table =
     [example_header,
      [text_cell (Some 6) ''a'', text_cell (Some 11) ''14-WHT''],
      [text_cell (Some 6) ''b'', text_cell (Some 11) ''18-RED''],
      [text_cell (Some 6) ''c plcio'', text_cell (Some 11) ''14-WHT''],
      [text_cell (Some 6) ''d'', text_cell (Some 11) ''14-WHT''],
      [text_cell (Some 6) ''e'', text_cell (Some 11) ''14-WHT'']]"

section \<open>Lemmas on the cell table\<close>

lemma length_cell_positions [simp]: "length (cell_positions p r) = length r"
  by (induction r arbitrary: p) (auto simp: Let_def)

lemma cell_positions_new_cell:
  "cell_positions p (r @ [new_cell q]) = cell_positions p r @ [q]"
  by (induction r arbitrary: p) (auto simp: Let_def new_cell_def)

lemma enumerate_new_cell:
  "enumerate_cells_with_positions (r @ [new_cell q]) =
     enumerate_cells_with_positions r @ [(q, length r)]"
  by (simp add: enumerate_cells_with_positions_def cell_positions_new_cell)

lemma pos2cell_new_cell:
  "pos2cell (r @ [new_cell q]) = (pos2cell r)(q \<mapsto> length r)"
  by (rule ext) (simp add: pos2cell_def dict_get_def enumerate_new_cell)

lemma pos2cell_SomeD:
  assumes "pos2cell r p = Some k"
  shows "k < length r \<and> cell_positions 1 r ! k = p"
proof -
  from assms have "(p, k) \<in> set (zip (cell_positions 1 r) [0..<length r])"
    by (auto simp: pos2cell_def dict_get_def enumerate_cells_with_positions_def
        dest: map_of_SomeD)
  then show ?thesis
    by (auto simp: set_zip)
qed

lemma pos2cell_NoneD:
  assumes "pos2cell r p = None"
  shows "p \<notin> set (cell_positions 1 r)"
proof -
  from assms have "p \<notin> fst ` set (rev (zip (cell_positions 1 r) [0..<length r]))"
    by (simp add: pos2cell_def dict_get_def enumerate_cells_with_positions_def map_of_eq_None_iff)
  then show ?thesis
    by (simp add: image_image flip: set_map)
qed

lemma pos2cell_set_text_at [simp]: "pos2cell (set_text_at r k t ty) = pos2cell r"
proof -
  have "cell_positions p (r[k := set_cell_text (r ! k) t ty]) = cell_positions p r" for p
  proof (induction r arbitrary: p k)
    case Nil
    then show ?case by simp
  next
    case (Cons c cs)
    then show ?case
      by (cases k) (simp_all add: Let_def set_cell_text_def)
  qed
  then show ?thesis
    by (simp add: pos2cell_def enumerate_cells_with_positions_def set_text_at_def)
qed

lemma scan_rows_Some:
  "scan_rows P n rs = Some i \<Longrightarrow>
     n \<le> i \<and> i - n < length rs \<and> P (rs ! (i - n)) \<and> (\<forall>j < i - n. \<not> P (rs ! j))"
proof (induction rs arbitrary: n)
  case Nil
  then show ?case by simp
next
  case (Cons r rs)
  show ?case
  proof (cases "P r")
    case True
    with Cons.prems show ?thesis by simp
  next
    case False
    with Cons.prems have "scan_rows P (Suc n) rs = Some i" by simp
    from Cons.IH [OF this] have ih: "Suc n \<le> i" "i - Suc n < length rs"
      "P (rs ! (i - Suc n))" "\<forall>j < i - Suc n. \<not> P (rs ! j)" by auto
    from ih(1) have eq: "i - n = Suc (i - Suc n)" by simp
    have "\<not> P ((r # rs) ! j)" if "j < i - n" for j
      using that False ih(4) eq by (cases j) auto
    with ih eq show ?thesis by simp
  qed
qed

lemma scan_rows_None: "scan_rows P n rs = None \<longleftrightarrow> (\<forall>j < length rs. \<not> P (rs ! j))"
proof (induction rs arbitrary: n)
  case Nil
  then show ?case by simp
next
  case (Cons r rs)
  show ?case
    by (auto simp: Cons.IH nth_Cons split: nat.splits)
qed

lemma pos2cell_inj: "pos2cell r p = Some k \<Longrightarrow> pos2cell r q = Some k \<Longrightarrow> p = q"
  using pos2cell_SomeD by blast

lemma text_at_set_text_at:
  "text_at (set_text_at r k t ty) q = (if pos2cell r q = Some k then t else text_at r q)"
proof (cases "pos2cell r q")
  case None
  then show ?thesis by (simp add: text_at_def)
next
  case (Some j)
  then have "j < length r" using pos2cell_SomeD by blast
  with Some show ?thesis
    unfolding text_at_def pos2cell_set_text_at
    by (simp add: set_text_at_def nth_list_update get_cell_text_def set_cell_text_def)
qed

lemma type_at_set_text_at:
  "type_at (set_text_at r k t ty) q = (if pos2cell r q = Some k then Some ty else type_at r q)"
proof (cases "pos2cell r q")
  case None
  then show ?thesis by (simp add: type_at_def)
next
  case (Some j)
  then have "j < length r" using pos2cell_SomeD by blast
  with Some show ?thesis
    unfolding type_at_def pos2cell_set_text_at
    by (simp add: set_text_at_def nth_list_update get_cell_type_def set_cell_text_def)
qed

lemma text_at_new_cell: "text_at (r @ [new_cell p]) q = text_at r q" if "pos2cell r p = None"
proof (cases "q = p")
  case True
  have "get_cell_text ((r @ [new_cell p]) ! length r) = []"
    by (simp add: get_cell_text_def new_cell_def)
  with that True show ?thesis
    unfolding text_at_def pos2cell_new_cell by simp
next
  case False
  show ?thesis
  proof (cases "pos2cell r q")
    case None
    with False show ?thesis
      unfolding text_at_def pos2cell_new_cell by simp
  next
    case (Some j)
    then have "j < length r" using pos2cell_SomeD by blast
    with Some False show ?thesis
      unfolding text_at_def pos2cell_new_cell by (simp add: nth_append)
  qed
qed

lemma type_at_new_cell: "type_at (r @ [new_cell p]) q = type_at r q" if "pos2cell r p = None"
proof (cases "q = p")
  case True
  have "get_cell_type ((r @ [new_cell p]) ! length r) = None"
    by (simp add: get_cell_type_def new_cell_def)
  with that True show ?thesis
    unfolding type_at_def pos2cell_new_cell by simp
next
  case False
  show ?thesis
  proof (cases "pos2cell r q")
    case None
    with False show ?thesis
      unfolding type_at_def pos2cell_new_cell by simp
  next
    case (Some j)
    then have "j < length r" using pos2cell_SomeD by blast
    with Some False show ?thesis
      unfolding type_at_def pos2cell_new_cell by (simp add: nth_append)
  qed
qed

lemma get_or_create_props:
  assumes "get_or_create_cell_at_position r p = (r1, k)"
  shows "pos2cell r1 p = Some k" and "k < length r1"
    and "text_at r1 q = text_at r q" and "type_at r1 q = type_at r q"
    and "get_cell_text (r1 ! k) = text_at r p"
    and "q \<noteq> p \<Longrightarrow> pos2cell r1 q = pos2cell r q"
proof -
  consider (absent) "pos2cell r p = None" "r1 = r @ [new_cell p]" "k = length r"
    | (present) "pos2cell r p = Some k" "r1 = r"
    using assms by (cases "pos2cell r p") (auto simp: get_or_create_cell_at_position_def)
  note cases = this
  show a: "pos2cell r1 p = Some k"
    by (cases rule: cases) (simp_all add: pos2cell_new_cell)
  show "k < length r1"
    using a pos2cell_SomeD by blast
  show t: "text_at r1 q = text_at r q" for q
    by (cases rule: cases) (simp_all add: text_at_new_cell)
  show "type_at r1 q = type_at r q"
    by (cases rule: cases) (simp_all add: type_at_new_cell)
  show "get_cell_text (r1 ! k) = text_at r p"
    using a t [of p] by (simp add: text_at_def)
  show "q \<noteq> p \<Longrightarrow> pos2cell r1 q = pos2cell r q"
    by (cases rule: cases) (simp_all add: pos2cell_new_cell)
qed

lemma pos2cell_at_created:
  assumes "get_or_create_cell_at_position r p = (r1, k)"
  shows "pos2cell r1 q = Some k \<longleftrightarrow> q = p"
proof
  assume "pos2cell r1 q = Some k"
  with get_or_create_props(1) [OF assms] show "q = p"
    by (rule pos2cell_inj [symmetric])
next
  assume "q = p"
  with get_or_create_props(1) [OF assms] show "pos2cell r1 q = Some k" by simp
qed

lemma text_at_write:
  assumes "get_or_create_cell_at_position r p = (r1, k)"
  shows "text_at (set_text_at r1 k t ty) q = (if q = p then t else text_at r q)"
  unfolding text_at_set_text_at pos2cell_at_created [OF assms]
    get_or_create_props(3) [OF assms] ..

lemma type_at_write:
  assumes "get_or_create_cell_at_position r p = (r1, k)"
  shows "type_at (set_text_at r1 k t ty) q = (if q = p then Some ty else type_at r q)"
  unfolding type_at_set_text_at pos2cell_at_created [OF assms]
    get_or_create_props(4) [OF assms] ..

lemma text_at_blank_cell: "text_at (blank_cell r p) q = (if q = p then [] else text_at r q)"
  by (cases "get_or_create_cell_at_position r p") (simp add: blank_cell_def text_at_write)

lemma type_at_blank_cell:
  "type_at (blank_cell r p) q = (if q = p then Some ''String'' else type_at r q)"
  by (cases "get_or_create_cell_at_position r p") (simp add: blank_cell_def type_at_write)

lemma text_at_blank_neighbours:
  "text_at (blank_neighbours r a b) q = (if q = a \<or> q = b then [] else text_at r q)"
  by (simp add: blank_neighbours_def text_at_blank_cell)

lemma type_at_blank_neighbours:
  "type_at (blank_neighbours r a b) q =
     (if q = a \<or> q = b then Some ''String'' else type_at r q)"
  by (auto simp: blank_neighbours_def type_at_blank_cell)

lemma on_data_rows_nth:
  assumes "on_data_rows h f rows = (rows', n)"
  shows "length rows' = length rows"
    and "i < length rows \<Longrightarrow> rows' ! i = (if i \<le> h then rows ! i else fst (f (rows ! i)))"
proof -
  from assms have r: "rows' = take (Suc h) rows @ map (fst \<circ> f) (drop (Suc h) rows)"
    by (auto simp: on_data_rows_def Let_def)
  show "length rows' = length rows" by (simp add: r)
  show "i < length rows \<Longrightarrow> rows' ! i = (if i \<le> h then rows ! i else fst (f (rows ! i)))"
    by (auto simp: r nth_append min_def)
qed

lemma on_data_rows_id:
  assumes "\<And>r. r \<in> set (drop (Suc h) rows) \<Longrightarrow> f r = (r, 0)"
  shows "on_data_rows h f rows = (rows, 0)"
proof -
  let ?xs = "drop (Suc h) rows"
  have a: "map fst (map f ?xs) = ?xs"
    unfolding map_map by (rule map_idI) (simp add: assms)
  have "map snd (map f ?xs) = map (\<lambda>r. 0) ?xs"
    unfolding map_map by (rule map_cong) (simp_all add: assms)
  then have b: "sum_list (map snd (map f ?xs)) = 0"
    by simp
  show ?thesis
    unfolding on_data_rows_def Let_def a b by simp
qed

lemma find_header_bound:
  assumes "find_header rows anchor = Inr (h, hdr)"
  shows "h < length rows" and "hdr = header_map (rows ! h)"
proof -
  from assms have f: "find_header_row_index_with strip rows anchor 80 = Inr h"
    and "hdr = header_map (rows ! h)"
    by (auto simp: find_header_def find_header_row_index_def split: sum.splits)
  then show "hdr = header_map (rows ! h)" by simp
  from f obtain i where "scan_rows (row_has_anchor strip anchor) 0
      (take (nat (min 80 (int (length rows)))) rows) = Some h"
    by (auto simp: find_header_row_index_with_def split: option.splits)
  from scan_rows_Some [OF this] have "h < nat (min 80 (int (length rows)))" by simp
  then show "h < length rows" by linarith
qed

lemma text_at_write_blank:
  assumes "get_or_create_cell_at_position r t = (r1, k)"
  shows "text_at (blank_neighbours (set_text_at r1 k c ty) a b) q =
           (if q = a \<or> q = b then [] else if q = t then c else text_at r q)"
  by (simp add: text_at_blank_neighbours text_at_write [OF assms])

lemma type_at_write_blank:
  assumes "get_or_create_cell_at_position r t = (r1, k)"
  shows "type_at (blank_neighbours (set_text_at r1 k c ''String'') a b) q =
           (if q = a \<or> q = b \<or> q = t then Some ''String'' else type_at r q)"
  by (simp add: type_at_blank_neighbours type_at_write [OF assms])

lemma crimp_written_write_blank:
  assumes "get_or_create_cell_at_position r t = (r1, k)" and "strip (text_at r t) = []"
  shows "crimp_written r (blank_neighbours (set_text_at r1 k c ''String'') (t - 1) (t - 2)) t c"
  unfolding crimp_written_def
  by (simp add: assms(2) text_at_write_blank [OF assms(1)] type_at_write_blank [OF assms(1)])

lemma same_cells_refl [simp]: "same_cells r r"
  by (simp add: same_cells_def)

lemma same_cells_created:
  "get_or_create_cell_at_position r p = (r1, k) \<Longrightarrow> same_cells r r1"
  by (simp add: same_cells_def get_or_create_props(3,4))

text \<open>
  What one pass of the hardcoded strategy does to a row: nothing that can be read
  through the position lookup, or one write into column 15 or 19.
\<close>

lemma auto_crimp_row_cases:
  assumes "auto_crimp_row pl g cw ca cid pref r = (r', n)"
  shows "(n = 0 \<and> same_cells r r')
       \<or> (n = 1 \<and> (crimp_written r r' 15 cid \<or> crimp_written r r' 19 cid))"
proof -
  define l where "l = token_matches_endpoint (fst (first_last_endpoint_tokens (strip (text_at r ca))))"
  define rt where "rt = token_matches_endpoint (snd (first_last_endpoint_tokens (strip (text_at r ca))))"
  define t0 :: int where "t0 = (if l \<and> rt then (if lower pref = ''left'' then 15 else 19)
      else if l then 15 else 19)"
  define t :: int where "t = (if t0 = 15 \<and> strip (text_at r 15) \<noteq> [] \<and> strip (text_at r 19) = [] then 19
      else if t0 = 19 \<and> strip (text_at r 19) \<noteq> [] \<and> strip (text_at r 15) = [] then 15 else t0)"
  have t: "t = 15 \<or> t = 19" by (auto simp: t_def t0_def)
  obtain r1 k where g: "get_or_create_cell_at_position r t = (r1, k)"
    by (cases "get_or_create_cell_at_position r t")
  note p = get_or_create_props [OF g]
  let ?w = "(if t = 15 then blank_neighbours (set_text_at r1 k cid ''String'') 14 13
             else blank_neighbours (set_text_at r1 k cid ''String'') 18 17, 1::nat)"
  have res: "(r', n) = (r, 0) \<or> (r', n) = (r1, 0)
      \<or> ((r', n) = ?w \<and> strip (text_at r t) = [])"
    using assms g p(5)
    unfolding auto_crimp_row_def Let_def l_def rt_def t_def t0_def
    by (auto simp: case_prod_beta split: if_splits)
  then consider "r' = r" "n = 0" | "r' = r1" "n = 0"
    | "r' = fst ?w" "n = 1" "strip (text_at r t) = []" by auto
  then show ?thesis
  proof cases
    case 1
    then show ?thesis by simp
  next
    case 2
    then show ?thesis by (simp add: same_cells_created [OF g])
  next
    case 3
    from t show ?thesis
    proof
      assume "t = 15"
      with crimp_written_write_blank [OF g 3(3), of cid] 3(1,2) show ?thesis by simp
    next
      assume "t = 19"
      with crimp_written_write_blank [OF g 3(3), of cid] 3(1,2) show ?thesis by simp
    qed
  qed
qed

lemma write_crimp_cases:
  assumes "write_crimp rule L R t r = Inr (r', n)" and "t = L \<or> t = R"
  shows "(n = 0 \<and> same_cells r r')
       \<or> (n = 1 \<and> (\<exists>c. crimp_id rule = Some c \<and> crimp_written r r' t c))"
proof -
  obtain r1 k where g: "get_or_create_cell_at_position r t = (r1, k)"
    by (cases "get_or_create_cell_at_position r t")
  note p = get_or_create_props [OF g]
  show ?thesis
  proof (cases "strip (text_at r t) = []")
    case False
    with assms g p(5) have "r' = r1" "n = 0"
      by (auto simp: write_crimp_def)
    then show ?thesis by (simp add: same_cells_created [OF g])
  next
    case True
    have nb: "(if t = L then blank_neighbours x (L - 1) (L - 2)
               else blank_neighbours x (R - 1) (R - 2)) = blank_neighbours x (t - 1) (t - 2)"
      for x using assms(2) by auto
    from assms(1) g p(5) True obtain c where c: "crimp_id rule = Some c"
      and r': "r' = blank_neighbours (set_text_at r1 k c ''String'') (t - 1) (t - 2)"
      and n: "n = 1"
      unfolding write_crimp_def Let_def nb
      by (auto split: option.splits)
    from crimp_written_write_blank [OF g True, of c] c n show ?thesis
      by (simp add: r')
  qed
qed

lemma same_cells_crimp_written:
  "same_cells r r2 \<Longrightarrow> crimp_written r2 r' t c \<Longrightarrow> crimp_written r r' t c"
  by (simp add: same_cells_def crimp_written_def)

lemma same_cells_trans: "same_cells r r2 \<Longrightarrow> same_cells r2 r' \<Longrightarrow> same_cells r r'"
  by (simp add: same_cells_def)

lemma apply_rule_cases:
  assumes "apply_rule rule target r = Inr (r', n)"
  shows "(n = 0 \<and> same_cells r r')
       \<or> (n = 1 \<and> (\<exists>t c. (t = left_col_of rule \<or> t = right_col_of rule)
             \<and> crimp_id rule = Some c \<and> crimp_written r r' t c))"
proof -
  let ?L = "left_col_of rule" and ?R = "right_col_of rule"
  obtain r1 kl where g1: "get_or_create_cell_at_position r ?L = (r1, kl)"
    by (cases "get_or_create_cell_at_position r ?L")
  obtain r2 kr where g2: "get_or_create_cell_at_position r1 ?R = (r2, kr)"
    by (cases "get_or_create_cell_at_position r1 ?R")
  note p1 = get_or_create_props [OF g1] and p2 = get_or_create_props [OF g2]
  have same: "same_cells r r2"
    by (rule same_cells_trans [OF same_cells_created [OF g1] same_cells_created [OF g2]])
  have vl: "get_cell_text (r1 ! kl) = text_at r ?L" by (rule p1(5))
  have vr: "get_cell_text (r2 ! kr) = text_at r ?R" by (simp add: p2(5) p1(3))
  have "(r', n) = (r2, 0) \<or> (\<exists>t. (t = ?L \<or> t = ?R) \<and> write_crimp rule ?L ?R t r2 = Inr (r', n))"
  proof (cases "strip (text_at r ?L) \<noteq> [] \<and> strip (text_at r ?R) \<noteq> []")
    case True
    with assms show ?thesis
      unfolding apply_rule_def Let_def
        g1 g2 prod.case vl vr
      by simp
  next
    case False
    define tc where "tc = (if target = 15 then ?L else ?R)"
    define tc' where "tc' = (if tc = ?L \<and> strip (text_at r ?L) \<noteq> [] \<and> strip (text_at r ?R) = []
        then ?R
        else if tc = ?R \<and> strip (text_at r ?R) \<noteq> [] \<and> strip (text_at r ?L) = []
        then ?L else tc)"
    have tc': "tc' = ?L \<or> tc' = ?R" by (auto simp: tc'_def tc_def)
    from assms False have "(r', n) = (r2, 0) \<or> write_crimp rule ?L ?R tc' r2 = Inr (r', n)"
      unfolding apply_rule_def Let_def
        g1 g2 prod.case vl vr tc_def [symmetric] tc'_def [symmetric]
      by (simp split: if_splits sum.splits bool.splits)
    with tc' show ?thesis by blast
  qed
  then show ?thesis
  proof
    assume "(r', n) = (r2, 0)"
    with same show ?thesis by simp
  next
    assume "\<exists>t. (t = ?L \<or> t = ?R) \<and> write_crimp rule ?L ?R t r2 = Inr (r', n)"
    then obtain t where t: "t = ?L \<or> t = ?R" and w: "write_crimp rule ?L ?R t r2 = Inr (r', n)"
      by blast
    from write_crimp_cases [OF w t] show ?thesis
    proof
      assume "n = 0 \<and> same_cells r2 r'"
      with same show ?thesis by (simp add: same_cells_trans)
    next
      assume "n = 1 \<and> (\<exists>c. crimp_id rule = Some c \<and> crimp_written r2 r' t c)"
      then obtain c where "n = 1" "crimp_id rule = Some c" "crimp_written r2 r' t c" by blast
      with same t show ?thesis
        using same_cells_crimp_written by blast
    qed
  qed
qed

lemma rule_wrote_Cons:
  assumes "rule_wrote rest r r'"
  shows "rule_wrote (rule # rest) r r'"
proof -
  from assms obtain x t c where "x \<in> set rest" "t = left_col_of x \<or> t = right_col_of x"
    "crimp_id x = Some c" "crimp_written r r' t c"
    unfolding rule_wrote_def by blast
  then have "x \<in> set (rule # rest) \<and> (t = left_col_of x \<or> t = right_col_of x)
      \<and> crimp_id x = Some c \<and> crimp_written r r' t c" by simp
  then show ?thesis unfolding rule_wrote_def by blast
qed

lemma rule_wrote_here:
  assumes "t = left_col_of rule \<or> t = right_col_of rule" and "crimp_id rule = Some c"
    and "crimp_written r r' t c"
  shows "rule_wrote (rule # rest) r r'"
proof -
  from assms have "rule \<in> set (rule # rest) \<and> (t = left_col_of rule \<or> t = right_col_of rule)
      \<and> crimp_id rule = Some c \<and> crimp_written r r' t c" by simp
  then show ?thesis unfolding rule_wrote_def by blast
qed

lemma try_rules_cases:
  assumes "try_rules rules pd pl fg wt ltok rtok r = Inr (r', n)"
  shows "(n = 0 \<and> same_cells r r') \<or> (n = 1 \<and> rule_wrote rules r r')"
  using assms
proof (induction rules)
  case Nil
  then show ?case by simp
next
  case (Cons rule rest)
  consider (skip) "try_rules rest pd pl fg wt ltok rtok r = Inr (r', n)"
    | (hit) target where "apply_rule rule target r = Inr (r', n)"
    using Cons.prems by (simp add: Let_def split: if_splits option.splits)
  then show ?case
  proof cases
    case skip
    from Cons.IH [OF this] show ?thesis
      using rule_wrote_Cons by blast
  next
    case hit
    from apply_rule_cases [OF this] show ?thesis
      using rule_wrote_here by blast
  qed
qed

lemma crimp_rules_row_cases:
  assumes "crimp_rules_row rules pd pl fg cw ca r = Inr (r', n)"
  shows "(n = 0 \<and> same_cells r r') \<or> (n = 1 \<and> rule_wrote rules r r')"
proof (cases "strip (text_at r ca) = []")
  case True
  with assms show ?thesis by (simp add: crimp_rules_row_def)
next
  case False
  with assms obtain ltok rtok where
    "try_rules rules pd pl fg (text_at r cw) ltok rtok r = Inr (r', n)"
    by (auto simp: crimp_rules_row_def Let_def split: prod.splits)
  from try_rules_cases [OF this] show ?thesis .
qed

lemma map_rows_nth:
  assumes "map_rows f rs = Inr (rs', n)"
  shows "length rs' = length rs \<and> (\<forall>i < length rs. \<exists>m. f (rs ! i) = Inr (rs' ! i, m))"
  using assms
proof (induction rs arbitrary: rs' n)
  case Nil
  then show ?case by simp
next
  case (Cons r rs)
  from Cons.prems obtain r' k rest m where f: "f r = Inr (r', k)"
    and m: "map_rows f rs = Inr (rest, m)" and rs': "rs' = r' # rest"
    by (auto split: sum.splits prod.splits)
  from Cons.IH [OF m] have ih: "length rest = length rs"
    "\<forall>i < length rs. \<exists>m. f (rs ! i) = Inr (rest ! i, m)" by auto
  have "\<exists>m. f ((r # rs) ! i) = Inr (rs' ! i, m)" if "i < length (r # rs)" for i
    using that f ih(2) rs' by (cases i) auto
  with ih(1) rs' show ?case by simp
qed

lemma apply_auto_crimp_endpoints_rows:
  assumes "apply_auto_crimp_endpoints rows src anchor cid pref = Inr rep"
  shows "length (tree rep) = length rows"
    and "i < length rows \<Longrightarrow>
           same_cells (rows ! i) (tree rep ! i)
           \<or> crimp_written (rows ! i) (tree rep ! i) 15 cid
           \<or> crimp_written (rows ! i) (tree rep ! i) 19 cid"
proof -
  from assms obtain h hdr where fh: "find_header rows anchor = Inr (h, hdr)"
    by (auto simp: apply_auto_crimp_endpoints_def split: sum.splits)
  have "tree rep = rows
      \<or> (\<exists>pl g cw ca n. on_data_rows h (auto_crimp_row pl g cw ca cid pref) rows = (tree rep, n))"
    using assms fh unfolding apply_auto_crimp_endpoints_def Let_def
    by (fastforce split: prod.splits if_splits)
  then consider (skip) "tree rep = rows"
    | (run) f n where "on_data_rows h f rows = (tree rep, n)"
        "\<exists>pl g cw ca. f = auto_crimp_row pl g cw ca cid pref"
    by blast
  note cases = this
  show "length (tree rep) = length rows"
    by (cases rule: cases) (auto dest: on_data_rows_nth(1))
  show "same_cells (rows ! i) (tree rep ! i)
      \<or> crimp_written (rows ! i) (tree rep ! i) 15 cid
      \<or> crimp_written (rows ! i) (tree rep ! i) 19 cid" if i: "i < length rows"
  proof (cases rule: cases)
    case skip
    then show ?thesis by simp
  next
    case (run f n)
    then obtain pl g cw ca where f: "f = auto_crimp_row pl g cw ca cid pref" by blast
    show ?thesis
    proof (cases "i \<le> h")
      case True
      with on_data_rows_nth(2) [OF run(1) i] show ?thesis by simp
    next
      case False
      with on_data_rows_nth(2) [OF run(1) i]
      have "tree rep ! i = fst (f (rows ! i))" by simp
      then have "f (rows ! i) = (tree rep ! i, snd (f (rows ! i)))" by simp
      from auto_crimp_row_cases [OF this [unfolded f]] show ?thesis by blast
    qed
  qed
qed

lemma apply_crimp_rules_rows:
  assumes "apply_crimp_rules rows src rules pd anchor = Inr rep"
  shows "length (tree rep) = length rows"
    and "i < length rows \<Longrightarrow>
           same_cells (rows ! i) (tree rep ! i) \<or> rule_wrote rules (rows ! i) (tree rep ! i)"
proof -
  from assms obtain h hdr where fh: "find_header rows anchor = Inr (h, hdr)"
    by (auto simp: apply_crimp_rules_def split: sum.splits)
  note hb = find_header_bound(1) [OF fh]
  have "\<exists>pl g cw ca rs' n.
      map_rows (crimp_rules_row rules pd pl g cw ca) (drop (Suc h) rows) = Inr (rs', n)
      \<and> tree rep = take (Suc h) rows @ rs'"
    using assms fh unfolding apply_crimp_rules_def Let_def
    by (fastforce split: prod.splits sum.splits)
  then obtain f rs' n where m: "map_rows f (drop (Suc h) rows) = Inr (rs', n)"
    and t: "tree rep = take (Suc h) rows @ rs'"
    and f: "\<exists>pl g cw ca. f = crimp_rules_row rules pd pl g cw ca"
    by blast
  from map_rows_nth [OF m] have len: "length rs' = length rows - Suc h"
    and nth: "\<forall>j < length rows - Suc h. \<exists>m. f (drop (Suc h) rows ! j) = Inr (rs' ! j, m)"
    by auto
  show "length (tree rep) = length rows"
    using hb by (simp add: t len)
  show "same_cells (rows ! i) (tree rep ! i) \<or> rule_wrote rules (rows ! i) (tree rep ! i)"
    if i: "i < length rows"
  proof (cases "i \<le> h")
    case True
    with hb have "tree rep ! i = rows ! i" by (simp add: t nth_append)
    then show ?thesis by simp
  next
    case False
    then have j: "i - Suc h < length rows - Suc h" and eq: "Suc h + (i - Suc h) = i"
      using i by auto
    from False hb i have "tree rep ! i = rs' ! (i - Suc h)" by (simp add: t nth_append min_def)
    moreover from nth j obtain m where "f (drop (Suc h) rows ! (i - Suc h)) = Inr (rs' ! (i - Suc h), m)"
      by blast
    moreover have "drop (Suc h) rows ! (i - Suc h) = rows ! i"
      using hb eq by (simp add: nth_drop)
    ultimately have fi: "f (rows ! i) = Inr (tree rep ! i, m)" by simp
    from f obtain pl g cw ca where "f = crimp_rules_row rules pd pl g cw ca" by blast
    with fi have "crimp_rules_row rules pd pl g cw ca (rows ! i) = Inr (tree rep ! i, m)"
      by simp
    from crimp_rules_row_cases [OF this] show ?thesis by blast
  qed
qed

lemma pos2cell_blank_cell: "q \<noteq> p \<Longrightarrow> pos2cell (blank_cell r p) q = pos2cell r q"
  by (cases "get_or_create_cell_at_position r p")
    (simp add: blank_cell_def get_or_create_props(6))

lemma first_last_endpoint_tokens_blank: "first_last_endpoint_tokens [] = (None, None)"
  by code_simp

lemma auto_crimp_row_left_only:
  assumes tok: "first_last_endpoint_tokens (strip (text_at r ca)) = (Some ltok, Some rtok)"
    and l: "token_matches_endpoint (Some ltok)" and nr: "\<not> token_matches_endpoint (Some rtok)"
    and b15: "strip (text_at r 15) = []" and b19: "strip (text_at r 19) = []"
    and g: "g = Some 14 \<or> extract_gauge_from_wire_id (text_at r cw) = Some 14"
    and pl: "pl = None \<or> pl = Some ''C''"
    and oc: "get_or_create_cell_at_position r 15 = (r1, k)"
  shows "auto_crimp_row pl g cw ca cid pref r =
           (blank_neighbours (set_text_at r1 k cid ''String'') 14 13, 1)"
proof -
  from tok have ne: "strip (text_at r ca) \<noteq> []"
    by (auto simp: first_last_endpoint_tokens_blank)
  have t: "strip (get_cell_text (r1 ! k)) = []"
    using get_or_create_props(5) [OF oc] b15 by simp
  show ?thesis
    unfolding auto_crimp_row_def Let_def tok prod.case
    using ne l nr b15 b19 g pl oc t by auto
qed

lemma same_cells_text: "same_cells r r' \<Longrightarrow> text_at r' q = text_at r q"
  by (simp add: same_cells_def)

lemma crimp_written_other:
  "crimp_written r r' t c \<Longrightarrow> q \<noteq> t \<Longrightarrow> q \<noteq> t - 1 \<Longrightarrow> q \<noteq> t - 2 \<Longrightarrow>
     text_at r' q = text_at r q"
  by (simp add: crimp_written_def)

lemma group_add_keys: "map fst (group_add k v g) = (if k \<in> fst ` set g then map fst g else map fst g @ [k])"
  by (induction g) (auto split: if_splits)

lemma group_add_lookup:
  "map_of (group_add k v g) k' =
     (if k' = k then Some ((case map_of g k of None \<Rightarrow> [] | Some vs \<Rightarrow> vs) @ [v])
      else map_of g k')"
  by (induction g) auto

lemma group_add_mset:
  "mset (concat (map snd (group_add k v g))) = add_mset v (mset (concat (map snd g)))"
  by (induction g) auto

lemma group_fold_distinct:
  "distinct (map fst g0) \<Longrightarrow> distinct (map fst (foldl (\<lambda>g r. group_add (key r) r g) g0 rs))"
  by (induction rs arbitrary: g0) (simp_all add: group_add_keys)

lemma group_fold_keys:
  "fst ` set (foldl (\<lambda>g r. group_add (key r) r g) g0 rs) = fst ` set g0 \<union> key ` set rs"
proof (induction rs arbitrary: g0)
  case Nil
  then show ?case by simp
next
  case (Cons r rs)
  have "fst ` set (group_add (key r) r g0) = insert (key r) (fst ` set g0)"
    using group_add_keys [of "key r" r g0, THEN arg_cong, of set]
    by (auto simp flip: set_map split: if_splits)
  with Cons.IH [of "group_add (key r) r g0"] show ?case by auto
qed

lemma group_fold_lookup:
  "(case map_of (foldl (\<lambda>g r. group_add (key r) r g) g0 rs) k of None \<Rightarrow> [] | Some vs \<Rightarrow> vs) =
     (case map_of g0 k of None \<Rightarrow> [] | Some vs \<Rightarrow> vs) @ filter (\<lambda>r. key r = k) rs"
proof (induction rs arbitrary: g0)
  case Nil
  then show ?case by simp
next
  case (Cons r rs)
  show ?case
    by (simp add: Cons.IH group_add_lookup)
qed

lemma group_fold_mset:
  "mset (concat (map snd (foldl (\<lambda>g r. group_add (key r) r g) g0 rs))) =
     mset (concat (map snd g0)) + mset rs"
  by (induction rs arbitrary: g0) (simp_all add: group_add_mset)

lemma group_rows_props:
  fixes key :: "'v \<Rightarrow> 'k"
  shows "distinct (map fst (group_rows key rs))"
    and "fst ` set (group_rows key rs) = key ` set rs"
    and "(k, vs) \<in> set (group_rows key rs) \<Longrightarrow> vs = filter (\<lambda>r. key r = k) rs \<and> vs \<noteq> []"
    and "mset (concat (map snd (group_rows key rs))) = mset rs"
proof -
  show d: "distinct (map fst (group_rows key rs))"
    unfolding group_rows_def by (rule group_fold_distinct) simp
  show ks: "fst ` set (group_rows key rs) = key ` set rs"
    unfolding group_rows_def by (simp add: group_fold_keys)
  show "mset (concat (map snd (group_rows key rs))) = mset rs"
    unfolding group_rows_def by (simp add: group_fold_mset)
  show "vs = filter (\<lambda>r. key r = k) rs \<and> vs \<noteq> []" if m: "(k, vs) \<in> set (group_rows key rs)"
  proof -
    from m d have "map_of (group_rows key rs) k = Some vs" by simp
    with group_fold_lookup [of key "[]" rs k] have vs: "vs = filter (\<lambda>r. key r = k) rs"
      by (simp add: group_rows_def)
    from m ks have "k \<in> key ` set rs" by (metis fst_conv image_eqI)
    then obtain r where "r \<in> set rs" "key r = k" by blast
    then have "filter (\<lambda>r. key r = k) rs \<noteq> []"
      by (auto simp: filter_empty_conv)
    with vs show ?thesis by simp
  qed
qed

lemma py_slice_nat:
  "py_slice rs (int a) (int b) =
     take (min b (length rs) - min a (length rs)) (drop (min a (length rs)) rs)"
proof -
  have "nat (min (int b) (int (length rs)) - min (int a) (int (length rs))) =
      min b (length rs) - min a (length rs)"
    by (auto simp: min_def nat_diff_distrib')
  moreover have "nat (min (int a) (int (length rs))) = min a (length rs)"
    by (simp add: min_def)
  ultimately show ?thesis
    by (simp add: py_slice_def Let_def)
qed

lemma py_slice_chunk:
  assumes "0 < m"
  shows "py_slice rs (int i * m) ((int i + 1) * m) = take (nat m) (drop (i * nat m) rs)"
proof -
  from assms obtain M where m: "m = int M" and M: "0 < M"
    by (metis nat_0_less_mult_iff nat_eq_iff2 nat_less_le zero_less_nat_eq mult.right_neutral
        less_imp_le)
  have eq: "int i * m = int (i * M)" "(int i + 1) * m = int (i * M + M)"
    by (simp_all add: m algebra_simps)
  have "take (min (i * M + M) (length rs) - min (i * M) (length rs))
          (drop (min (i * M) (length rs)) rs) = take M (drop (i * M) rs)"
  proof (cases "i * M \<le> length rs")
    case True
    then have "min (i * M + M) (length rs) - min (i * M) (length rs) =
        min M (length (drop (i * M) rs))"
      by (auto simp: min_def)
    with True show ?thesis by (simp add: min_def)
  next
    case False
    then show ?thesis by (simp add: min_def)
  qed
  then show ?thesis
    unfolding eq py_slice_nat by (simp add: m)
qed

lemma concat_chunks_take:
  "concat (map (\<lambda>i. take m (drop (i * m) rs)) [0..<k]) = take (k * m) rs"
proof (induction k)
  case 0
  then show ?case by simp
next
  case (Suc k)
  have "take (Suc k * m) rs = take (k * m) rs @ take m (drop (k * m) rs)"
    using take_add [of "k * m" m rs] by (simp add: add.commute)
  with Suc show ?case by simp
qed

lemma ceil_div_bounds:
  fixes n m :: int
  assumes "0 < m"
  shows "n \<le> (- ((- n) div m)) * m" and "(- ((- n) div m) - 1) * m < n"
proof -
  define q where "q = (- n) div m"
  define r where "r = (- n) mod m"
  have a: "q * m + r = - n" unfolding q_def r_def by (rule div_mult_mod_eq)
  have b: "0 \<le> r" "r < m" unfolding r_def using assms by simp_all
  have c: "(- q) * m = n + r" using a by (simp add: algebra_simps)
  have d: "(- q - 1) * m = n + r - m" using a by (simp add: algebra_simps)
  show "n \<le> (- ((- n) div m)) * m" unfolding q_def [symmetric] c using b by simp
  show "(- ((- n) div m) - 1) * m < n" unfolding q_def [symmetric] d using b by simp
qed

lemma chunks_of_props:
  assumes m: "0 < m" and ne: "rs \<noteq> []"
  shows "\<exists>cs. chunks_of rs m = Inr cs \<and> concat cs = rs
           \<and> (\<forall>c \<in> set cs. c \<noteq> [] \<and> length c \<le> nat m)
           \<and> int (length cs) = \<lceil>real (length rs) / real_of_int m\<rceil>"
proof -
  define n where "n = int (length rs)"
  define c where "c = - ((- n) div m)"
  define M where "M = nat m"
  define k where "k = nat c"
  let ?cs = "map (\<lambda>i. take M (drop (i * M) rs)) [0..<k]"
  have n1: "1 \<le> n" using ne by (cases rs) (simp_all add: n_def)
  have M: "0 < M" "int M = m" using m by (simp_all add: M_def)
  note b = ceil_div_bounds [OF m, of n, folded c_def]
  have c1: "1 \<le> c"
  proof (rule ccontr)
    assume "\<not> 1 \<le> c"
    then have "c \<le> 0" by simp
    with m have "c * m \<le> 0" by (simp add: mult_le_0_iff)
    with b(1) n1 show False by simp
  qed
  then have k: "int k = c" "0 < k" by (simp_all add: k_def)
  have cnt: "chunk_count (length rs) m = Inr k"
    using m c1 by (simp add: chunk_count_def k_def c_def n_def)
  have run: "chunks_of rs m = Inr ?cs"
    using py_slice_chunk [OF m, of rs] by (simp add: chunks_of_def cnt M_def)
  have "int (length rs) \<le> int (k * M)"
    using b(1) by (simp add: k M n_def)
  then have "length rs \<le> k * M" by linarith
  then have cat: "concat ?cs = rs"
    by (simp add: concat_chunks_take)
  have each: "x \<noteq> [] \<and> length x \<le> nat m" if "x \<in> set ?cs" for x
  proof -
    from that obtain i where i: "i < k" and x: "x = take M (drop (i * M) rs)" by auto
    from i have "int i \<le> c - 1" using k by simp
    with m have "int i * m \<le> (c - 1) * m" by (simp add: mult_right_mono)
    with b(2) have "int (i * M) < int (length rs)" by (simp add: M n_def)
    then have "i * M < length rs" by linarith
    with M show ?thesis by (simp add: x M_def)
  qed
  have "\<lceil>real (length rs) / real_of_int m\<rceil> = c"
    using ceiling_divide_eq_div [of n m] by (simp add: c_def n_def)
  with k have "int (length ?cs) = \<lceil>real (length rs) / real_of_int m\<rceil>" by simp
  with run cat each show ?thesis by blast
qed

lemma emit_bucket_tables:
  assumes "chunks_of (snd b) m = Inr cs"
  shows "\<exists>out. emit_bucket rows h s p m b = Inr out
           \<and> map snd out = map (\<lambda>c. take (Suc h) rows @ c) cs"
proof -
  obtain gc pl rs where b: "b = ((gc, pl), rs)" by (cases b) auto
  have "map snd (map (\<lambda>(i, chunk). (f i, take (Suc h) rows @ chunk)) (zip [0..<length cs] cs)) =
      map (\<lambda>c. take (Suc h) rows @ c) cs" for f :: "nat \<Rightarrow> string"
    by (induction cs rule: rev_induct) (simp_all add: case_prod_beta)
  with assms show ?thesis
    by (simp add: emit_bucket_def b Let_def)
qed

lemma emit_buckets_tables:
  assumes "\<forall>b \<in> set bs. chunks_of (snd b) m = Inr (chunks b)"
  shows "\<exists>outs. emit_buckets rows h s p m bs = Inr outs
           \<and> map snd outs = map (\<lambda>c. take (Suc h) rows @ c) (concat (map chunks bs))"
  using assms
proof (induction bs)
  case Nil
  then show ?case by simp
next
  case (Cons b bs)
  from Cons.prems have "chunks_of (snd b) m = Inr (chunks b)" by simp
  from emit_bucket_tables [OF this, of rows h s p] obtain out where
    o: "emit_bucket rows h s p m b = Inr out"
       "map snd out = map (\<lambda>c. take (Suc h) rows @ c) (chunks b)" by blast
  from Cons.IH Cons.prems obtain outs where
    os: "emit_buckets rows h s p m bs = Inr outs"
        "map snd outs = map (\<lambda>c. take (Suc h) rows @ c) (concat (map chunks bs))" by auto
  from o os show ?case by simp
qed

lemma concat_concat_map: "concat (concat (map f xs)) = concat (map (\<lambda>x. concat (f x)) xs)"
  by (induction xs) simp_all

section \<open>Claims\<close>

text \<open>
  C5. For every list of rows, every anchor and every scan limit, \<open>find_header_row_index\<close>
  (with either program's normalisation) returns the index of the first row, among the
  first \<open>min(scan_limit, len(rows))\<close> rows, that has a cell whose normalised text equals
  the anchor, and fails with the header-not-found error exactly when the scan window
  holds no such row.
\<close>

theorem find_header_row_index_first_match:
  "(find_header_row_index_with normalise rows anchor scan_limit = Inr i \<longleftrightarrow>
      i < nat (min scan_limit (int (length rows))) \<and>
      row_has_anchor normalise anchor (rows ! i) \<and>
      (\<forall>j < i. \<not> row_has_anchor normalise anchor (rows ! j)))
   \<and> (find_header_row_index_with normalise rows anchor scan_limit = Inl e \<longleftrightarrow>
      e = HeaderNotFound \<and>
      (\<forall>j < nat (min scan_limit (int (length rows))). \<not> row_has_anchor normalise anchor (rows ! j)))
   \<and> find_header_row_index rows anchor scan_limit =
      find_header_row_index_with strip rows anchor scan_limit"
proof -
  define n where "n = nat (min scan_limit (int (length rows)))"
  let ?P = "row_has_anchor normalise anchor"
  let ?w = "take n rows"
  have len: "length ?w = n" by (simp add: n_def)
  have nth: "?w ! j = rows ! j" if "j < n" for j using that by simp
  have a: "find_header_row_index_with normalise rows anchor scan_limit = Inr i \<longleftrightarrow>
            i < n \<and> ?P (rows ! i) \<and> (\<forall>j < i. \<not> ?P (rows ! j))"
  proof
    assume "find_header_row_index_with normalise rows anchor scan_limit = Inr i"
    then have "scan_rows ?P 0 ?w = Some i"
      by (auto simp: find_header_row_index_with_def n_def split: option.splits)
    from scan_rows_Some [OF this] len nth
    show "i < n \<and> ?P (rows ! i) \<and> (\<forall>j < i. \<not> ?P (rows ! j))" by auto
  next
    assume r: "i < n \<and> ?P (rows ! i) \<and> (\<forall>j < i. \<not> ?P (rows ! j))"
    then have "scan_rows ?P 0 ?w \<noteq> None"
      using len nth by (auto simp: scan_rows_None)
    then obtain i' where s: "scan_rows ?P 0 ?w = Some i'" by auto
    from scan_rows_Some [OF s] len nth
    have i': "i' < n" "?P (rows ! i')" "\<forall>j < i'. \<not> ?P (rows ! j)" by auto
    from r i' have "i' = i" by (metis linorder_neqE_nat)
    with s show "find_header_row_index_with normalise rows anchor scan_limit = Inr i"
      by (simp add: find_header_row_index_with_def n_def)
  qed
  have b: "find_header_row_index_with normalise rows anchor scan_limit = Inl e \<longleftrightarrow>
            e = HeaderNotFound \<and> (\<forall>j < n. \<not> ?P (rows ! j))"
  proof -
    have "scan_rows ?P 0 ?w = None \<longleftrightarrow> (\<forall>j < n. \<not> ?P (rows ! j))"
      using len nth by (auto simp: scan_rows_None)
    then show ?thesis
      by (auto simp: find_header_row_index_with_def n_def split: option.splits)
  qed
  from a b show ?thesis unfolding n_def by (simp add: find_header_row_index_def)
qed

theorem find_header_row_index_first_match_witness:
  "(1::nat) < nat (min 80 (int (length example_anchor_table)))
   \<and> row_has_anchor strip ''Order ID'' (example_anchor_table ! 1)
   \<and> find_header_row_index_with strip example_anchor_table ''Order ID'' 80 = Inr 1
   \<and> find_header_row_index_with strip example_anchor_table ''Order ID'' 1 = Inl HeaderNotFound"
proof -
  have a: "(1::nat) < nat (min 80 (int (length example_anchor_table)))"
    by (simp add: example_anchor_table_def)
  have b: "row_has_anchor strip ''Order ID'' (example_anchor_table ! 1)"
    by code_simp
  have c: "\<forall>j < (1::nat). \<not> row_has_anchor strip ''Order ID'' (example_anchor_table ! j)"
    by (simp add: example_anchor_table_def row_has_anchor_def text_cell_def get_cell_text_def
        strip_def is_space_def)
  have d: "\<forall>j < nat (min 1 (int (length example_anchor_table))).
      \<not> row_has_anchor strip ''Order ID'' (example_anchor_table ! j)"
    by (simp add: example_anchor_table_def row_has_anchor_def text_cell_def get_cell_text_def
        strip_def is_space_def)
  from a b c d
    find_header_row_index_first_match [of strip example_anchor_table "''Order ID''" 80 1]
    find_header_row_index_first_match [of strip example_anchor_table "''Order ID''" 1 _ HeaderNotFound]
  show ?thesis by blast
qed

text \<open>
  C9. \<open>get_or_create_cell_at_position\<close> returns the cell that the position lookup finds at
  the column when there is one, and the row is then unchanged; otherwise it appends
  exactly one new cell that carries the column as its index and returns that cell. The
  returned cell sits at the requested column; a second call with the same position
  returns the same cell and changes nothing; and no column position gains a second cell
  (a position's number of cells only grows from zero to one), so a row whose cells have
  distinct positions keeps that property.
\<close>

theorem get_or_create_cell_at_position_idempotent:
  assumes "get_or_create_cell_at_position r p = (r', k)"
  shows "k < length r' \<and> pos2cell r' p = Some k \<and> cell_positions 1 r' ! k = p
    \<and> (case pos2cell r p of
          Some j \<Rightarrow> r' = r \<and> k = j
        | None \<Rightarrow> r' = r @ [new_cell p] \<and> k = length r)
    \<and> get_or_create_cell_at_position r' p = (r', k)
    \<and> (\<forall>q. count_list (cell_positions 1 r') q \<le> max 1 (count_list (cell_positions 1 r) q))
    \<and> (distinct (cell_positions 1 r) \<longrightarrow> distinct (cell_positions 1 r'))"
proof (cases "pos2cell r p")
  case None
  with assms have r': "r' = r @ [new_cell p]" and k: "k = length r"
    by (auto simp: get_or_create_cell_at_position_def)
  have notin: "p \<notin> set (cell_positions 1 r)" by (rule pos2cell_NoneD [OF None])
  have look: "pos2cell r' p = Some k" by (simp add: r' k pos2cell_new_cell)
  have cnt: "count_list (cell_positions 1 r) p = 0" using notin by simp
  show ?thesis
    using None notin look cnt
    by (auto simp: r' k cell_positions_new_cell get_or_create_cell_at_position_def nth_append)
next
  case (Some j)
  with assms have "r' = r" "k = j" by (auto simp: get_or_create_cell_at_position_def)
  with Some pos2cell_SomeD [OF Some] show ?thesis
    by (auto simp: get_or_create_cell_at_position_def)
qed

theorem get_or_create_cell_at_position_idempotent_witness:
  "get_or_create_cell_at_position example_sparse_row 7 = (example_sparse_row @ [new_cell 7], 2)
   \<and> get_or_create_cell_at_position (example_sparse_row @ [new_cell 7]) 7 =
       (example_sparse_row @ [new_cell 7], 2)
   \<and> distinct (cell_positions 1 example_sparse_row)
   \<and> distinct (cell_positions 1 (example_sparse_row @ [new_cell 7]))
   \<and> get_or_create_cell_at_position example_sparse_row 5 = (example_sparse_row, 1)"
proof -
  have h: "get_or_create_cell_at_position example_sparse_row 7 =
      (example_sparse_row @ [new_cell 7], 2)"
    by code_simp
  have d: "distinct (cell_positions 1 example_sparse_row)"
    by code_simp
  have e: "get_or_create_cell_at_position example_sparse_row 5 = (example_sparse_row, 1)"
    by code_simp
  from get_or_create_cell_at_position_idempotent [OF h] h d e show ?thesis
    by blast
qed

text \<open>
  C10. The crimp engine is not idempotent. On a panel-C, gauge-14 file, a row whose left
  endpoint token is \<open>PSS1\<close> gets the crimp identifier in column 15 by the first run. In
  the second run column 15 already holds exactly the crimp identifier and column 19 is
  blank, so the engine flips to column 19 and writes the identifier there as well: after
  it both columns hold the crimp identifier, and the table differs from the table after
  the first run. This holds of the hardcoded strategy and of the rule strategy.
\<close>

theorem crimp_engine_not_idempotent:
  "apply_auto_crimp_endpoints example_crimp_table ''s5DpC14.xml'' ''Order ID'' ''018769-025''
       ''left'' = Inr \<lparr>warnings = [], tree = example_crimp_table_once, changed = 1\<rparr>
   \<and> text_at (example_crimp_table_once ! 1) 15 = ''018769-025''
   \<and> text_at (example_crimp_table_once ! 1) 19 = []
   \<and> apply_auto_crimp_endpoints example_crimp_table_once ''s5DpC14.xml'' ''Order ID''
       ''018769-025'' ''left'' =
       Inr \<lparr>warnings = [], tree = example_crimp_table_twice, changed = 1\<rparr>
   \<and> text_at (example_crimp_table_twice ! 1) 15 = ''018769-025''
   \<and> text_at (example_crimp_table_twice ! 1) 19 = ''018769-025''
   \<and> example_crimp_table_twice \<noteq> example_crimp_table_once
   \<and> apply_crimp_rules example_crimp_table ''s5DpC14.xml'' [example_rule] ''left'' ''Order ID'' =
       Inr \<lparr>warnings = [], tree = example_rules_table_once, changed = 1\<rparr>
   \<and> apply_crimp_rules example_rules_table_once ''s5DpC14.xml'' [example_rule] ''left''
       ''Order ID'' = Inr \<lparr>warnings = [], tree = example_rules_table_twice, changed = 1\<rparr>
   \<and> text_at (example_rules_table_twice ! 1) 15 = ''018769-025''
   \<and> text_at (example_rules_table_twice ! 1) 19 = ''018769-025''
   \<and> example_rules_table_twice \<noteq> example_rules_table_once"
proof -
  have a: "apply_auto_crimp_endpoints example_crimp_table ''s5DpC14.xml'' ''Order ID''
       ''018769-025'' ''left'' =
       Inr \<lparr>warnings = [], tree = example_crimp_table_once, changed = 1\<rparr>"
    by code_simp
  have b: "apply_auto_crimp_endpoints example_crimp_table_once ''s5DpC14.xml'' ''Order ID''
       ''018769-025'' ''left'' =
       Inr \<lparr>warnings = [], tree = example_crimp_table_twice, changed = 1\<rparr>"
    by code_simp
  have c: "apply_crimp_rules example_crimp_table ''s5DpC14.xml'' [example_rule] ''left''
       ''Order ID'' = Inr \<lparr>warnings = [], tree = example_rules_table_once, changed = 1\<rparr>"
    by code_simp
  have d: "apply_crimp_rules example_rules_table_once ''s5DpC14.xml'' [example_rule] ''left''
       ''Order ID'' = Inr \<lparr>warnings = [], tree = example_rules_table_twice, changed = 1\<rparr>"
    by code_simp
  have e: "text_at (example_crimp_table_once ! 1) 15 = ''018769-025''"
    "text_at (example_crimp_table_once ! 1) 19 = []"
    "text_at (example_crimp_table_twice ! 1) 15 = ''018769-025''"
    "text_at (example_crimp_table_twice ! 1) 19 = ''018769-025''"
    "text_at (example_rules_table_twice ! 1) 15 = ''018769-025''"
    "text_at (example_rules_table_twice ! 1) 19 = ''018769-025''"
    by code_simp+
  have f: "example_crimp_table_twice \<noteq> example_crimp_table_once"
    "example_rules_table_twice \<noteq> example_rules_table_once"
    by (simp_all add: example_crimp_table_twice_def example_crimp_table_once_def
        example_rules_table_twice_def example_rules_table_once_def)
  from a b c d e f show ?thesis by simp
qed

text \<open>
  C2, as the code has it. The engine tests target columns for being blank (empty after
  \<open>strip\<close>), not for being empty. For every row of the table: a target column (15 or 19)
  that is not blank reads the same, text and type, after a run of the hardcoded
  strategy; after a run of the rule strategy every column that is not blank reads the
  same, provided no rule of the rule set has a target column one or two to its right
  (a write blanks the two columns to the left of the written one, whatever they hold).
  With the default columns 15 and 19 that proviso holds of both target columns. In
  particular two target columns that are both not blank are both left as they are.
\<close>

theorem crimp_engine_keeps_nonblank_target:
  "(apply_auto_crimp_endpoints rows src anchor cid pref = Inr rep \<and> i < length rows
      \<and> (c = 15 \<or> c = 19) \<and> strip (text_at (rows ! i) c) \<noteq> []
      \<longrightarrow> text_at (tree rep ! i) c = text_at (rows ! i) c
          \<and> type_at (tree rep ! i) c = type_at (rows ! i) c)
   \<and> (apply_crimp_rules rows src rules pd anchor = Inr rep' \<and> i < length rows
      \<and> strip (text_at (rows ! i) c) \<noteq> []
      \<and> (\<forall>rule \<in> set rules. c + 1 \<noteq> left_col_of rule \<and> c + 1 \<noteq> right_col_of rule
            \<and> c + 2 \<noteq> left_col_of rule \<and> c + 2 \<noteq> right_col_of rule)
      \<longrightarrow> text_at (tree rep' ! i) c = text_at (rows ! i) c
          \<and> type_at (tree rep' ! i) c = type_at (rows ! i) c)"
proof (intro conjI impI)
  assume a: "apply_auto_crimp_endpoints rows src anchor cid pref = Inr rep \<and> i < length rows
      \<and> (c = 15 \<or> c = 19) \<and> strip (text_at (rows ! i) c) \<noteq> []"
  then have c: "c = 15 \<or> c = 19" and nb: "strip (text_at (rows ! i) c) \<noteq> []" by auto
  from a apply_auto_crimp_endpoints_rows(2) [of rows src anchor cid pref rep i]
  consider "same_cells (rows ! i) (tree rep ! i)"
    | "crimp_written (rows ! i) (tree rep ! i) 15 cid"
    | "crimp_written (rows ! i) (tree rep ! i) 19 cid" by blast
  then have "text_at (tree rep ! i) c = text_at (rows ! i) c
      \<and> type_at (tree rep ! i) c = type_at (rows ! i) c"
  proof cases
    case 1
    then show ?thesis by (simp add: same_cells_def)
  next
    case 2
    with nb have "c \<noteq> 15" by (auto simp: crimp_written_def)
    with c 2 show ?thesis by (simp add: crimp_written_def)
  next
    case 3
    with nb have "c \<noteq> 19" by (auto simp: crimp_written_def)
    with c 3 show ?thesis by (simp add: crimp_written_def)
  qed
  then show "text_at (tree rep ! i) c = text_at (rows ! i) c"
    and "type_at (tree rep ! i) c = type_at (rows ! i) c" by simp_all
next
  assume a: "apply_crimp_rules rows src rules pd anchor = Inr rep' \<and> i < length rows
      \<and> strip (text_at (rows ! i) c) \<noteq> []
      \<and> (\<forall>rule \<in> set rules. c + 1 \<noteq> left_col_of rule \<and> c + 1 \<noteq> right_col_of rule
            \<and> c + 2 \<noteq> left_col_of rule \<and> c + 2 \<noteq> right_col_of rule)"
  then have nb: "strip (text_at (rows ! i) c) \<noteq> []"
    and far: "\<And>rule. rule \<in> set rules \<Longrightarrow> c + 1 \<noteq> left_col_of rule \<and> c + 1 \<noteq> right_col_of rule
            \<and> c + 2 \<noteq> left_col_of rule \<and> c + 2 \<noteq> right_col_of rule" by auto
  from a apply_crimp_rules_rows(2) [of rows src rules pd anchor rep' i]
  consider "same_cells (rows ! i) (tree rep' ! i)"
    | "rule_wrote rules (rows ! i) (tree rep' ! i)" by blast
  then have "text_at (tree rep' ! i) c = text_at (rows ! i) c
      \<and> type_at (tree rep' ! i) c = type_at (rows ! i) c"
  proof cases
    case 1
    then show ?thesis by (simp add: same_cells_def)
  next
    case 2
    then obtain rule t x where r: "rule \<in> set rules"
      and t: "t = left_col_of rule \<or> t = right_col_of rule"
      and w: "crimp_written (rows ! i) (tree rep' ! i) t x"
      unfolding rule_wrote_def by blast
    from w nb have "c \<noteq> t" by (auto simp: crimp_written_def)
    moreover from far [OF r] t have "c \<noteq> t - 1" "c \<noteq> t - 2" by auto
    ultimately show ?thesis using w by (simp add: crimp_written_def)
  qed
  then show "text_at (tree rep' ! i) c = text_at (rows ! i) c"
    and "type_at (tree rep' ! i) c = type_at (rows ! i) c" by simp_all
qed

theorem crimp_engine_keeps_nonblank_target_witness:
  "apply_auto_crimp_endpoints example_assigned_table ''s5DpC14.xml'' ''Order ID'' ''018769-025''
       ''left'' = Inr \<lparr>warnings = [], tree = example_assigned_table, changed = 0\<rparr>
   \<and> strip (text_at (example_assigned_table ! 1) 15) = ''OTHER''
   \<and> text_at (tree \<lparr>warnings = [], tree = example_assigned_table, changed = 0\<rparr> ! 1) 15 = ''OTHER''
   \<and> (\<exists>rep. apply_crimp_rules example_assigned_table ''s5DpC14.xml'' [example_rule] ''left''
         ''Order ID'' = Inr rep \<and> text_at (tree rep ! 1) 15 = ''OTHER'')"
proof -
  let ?rep = "\<lparr>warnings = [], tree = example_assigned_table, changed = 0\<rparr>"
  have a: "apply_auto_crimp_endpoints example_assigned_table ''s5DpC14.xml'' ''Order ID''
      ''018769-025'' ''left'' = Inr ?rep"
    by code_simp
  have b: "(1::nat) < length example_assigned_table"
    by (simp add: example_assigned_table_def)
  have c: "strip (text_at (example_assigned_table ! 1) 15) = ''OTHER''"
    by code_simp
  obtain rep where d: "apply_crimp_rules example_assigned_table ''s5DpC14.xml'' [example_rule]
      ''left'' ''Order ID'' = Inr rep"
    by (cases "apply_crimp_rules example_assigned_table ''s5DpC14.xml'' [example_rule]
      ''left'' ''Order ID''") (simp_all, code_simp)
  have e: "\<forall>rule \<in> set [example_rule]. (15::int) + 1 \<noteq> left_col_of rule
      \<and> 15 + 1 \<noteq> right_col_of rule \<and> 15 + 2 \<noteq> left_col_of rule \<and> 15 + 2 \<noteq> right_col_of rule"
    by (simp add: example_rule_def left_col_of_def right_col_of_def)
  have t: "text_at (example_assigned_table ! 1) 15 = ''OTHER''"
    by code_simp
  from crimp_engine_keeps_nonblank_target [of example_assigned_table "''s5DpC14.xml''"
      "''Order ID''" "''018769-025''" "''left''" ?rep 1 15 "[example_rule]" "''left''" rep]
    a b c d e t
  show ?thesis by auto
qed

theorem crimp_engine_overwrites_counterexample:
  "text_at (example_space_table ! 1) 15 = '' ''
   \<and> text_at (example_space_table ! 1) 15 \<noteq> []
   \<and> text_at (example_space_table ! 1) 15 \<noteq> ''018769-025''
   \<and> apply_auto_crimp_endpoints example_space_table ''s5DpC14.xml'' ''Order ID''
         ''018769-025'' ''left'' =
       Inr \<lparr>warnings = [], tree = example_space_table_after, changed = 1\<rparr>
   \<and> text_at (example_space_table_after ! 1) 15 = ''018769-025''
   \<and> left_col_of example_override_rule = 18
   \<and> text_at (example_override_table ! 1) 18 = ''OTHER''
   \<and> apply_crimp_rules example_override_table ''s5DpC14.xml'' [example_override_rule]
         ''left'' ''Order ID'' =
       Inr \<lparr>warnings = [], tree = example_override_table_after, changed = 1\<rparr>
   \<and> text_at (example_override_table_after ! 1) 18 = []
   \<and> text_at (example_override_table_after ! 1) 19 = ''018769-025''"
  by code_simp

text \<open>
  C4. After a run of the crimp engine (either strategy) every row of the table either
  reads as before in every column, or was written once: some target column \<open>t\<close>, blank
  before, now holds the crimp identifier typed \<open>String\<close>, columns \<open>t - 1\<close> and \<open>t - 2\<close> hold
  the empty string typed \<open>String\<close> whatever they held, and all other columns read as
  before (\<^const>\<open>crimp_written\<close>). For the hardcoded strategy \<open>t\<close> is 15 or 19, for the
  rule strategy it is the left or right column of a rule of the rule set, and the
  identifier is that rule's. At most one of the columns 15 and 19 of a row changes in a
  run. On an eligible row (gauge 14 by file name or Wire ID, panel C or none named by
  the file) whose columns 15 and 19 are blank, whose left endpoint token is \<open>PSS1\<close> and
  whose right endpoint token is \<open>FOO\<close>, the hardcoded strategy writes the identifier
  into column 15, blanks columns 14 and 13, and does not touch column 19 (not even
  to create its cell).
\<close>

theorem crimp_write_blanks_left_neighbours:
  "(apply_auto_crimp_endpoints rows src anchor cid pref = Inr rep \<and> i < length rows
      \<longrightarrow> (same_cells (rows ! i) (tree rep ! i)
           \<or> crimp_written (rows ! i) (tree rep ! i) 15 cid
           \<or> crimp_written (rows ! i) (tree rep ! i) 19 cid)
          \<and> (text_at (tree rep ! i) 15 = text_at (rows ! i) 15
               \<and> type_at (tree rep ! i) 15 = type_at (rows ! i) 15
             \<or> text_at (tree rep ! i) 19 = text_at (rows ! i) 19
               \<and> type_at (tree rep ! i) 19 = type_at (rows ! i) 19))
   \<and> (apply_crimp_rules rows src rules pd anchor = Inr rep' \<and> i < length rows
      \<longrightarrow> (same_cells (rows ! i) (tree rep' ! i)
           \<or> (\<exists>rule t c. rule \<in> set rules
                 \<and> (t = left_col_of rule \<or> t = right_col_of rule) \<and> crimp_id rule = Some c
                 \<and> crimp_written (rows ! i) (tree rep' ! i) t c))
          \<and> (text_at (tree rep' ! i) 15 = text_at (rows ! i) 15
               \<and> type_at (tree rep' ! i) 15 = type_at (rows ! i) 15
             \<or> text_at (tree rep' ! i) 19 = text_at (rows ! i) 19
               \<and> type_at (tree rep' ! i) 19 = type_at (rows ! i) 19))
   \<and> (first_last_endpoint_tokens (strip (text_at r ca)) = (Some ''PSS1'', Some ''FOO'')
       \<and> strip (text_at r 15) = [] \<and> strip (text_at r 19) = []
       \<and> (g = Some 14 \<or> extract_gauge_from_wire_id (text_at r cw) = Some 14)
       \<and> (pl = None \<or> pl = Some ''C'')
      \<longrightarrow> (\<exists>r'. auto_crimp_row pl g cw ca cid pref r = (r', 1)
            \<and> crimp_written r r' 15 cid
            \<and> text_at r' 15 = cid \<and> type_at r' 15 = Some ''String''
            \<and> text_at r' 14 = [] \<and> type_at r' 14 = Some ''String''
            \<and> text_at r' 13 = [] \<and> type_at r' 13 = Some ''String''
            \<and> pos2cell r' 19 = pos2cell r 19
            \<and> text_at r' 19 = text_at r 19 \<and> type_at r' 19 = type_at r 19))"
proof (intro conjI impI)
  assume a: "apply_auto_crimp_endpoints rows src anchor cid pref = Inr rep \<and> i < length rows"
  with apply_auto_crimp_endpoints_rows(2) [of rows src anchor cid pref rep i]
  show w: "same_cells (rows ! i) (tree rep ! i)
      \<or> crimp_written (rows ! i) (tree rep ! i) 15 cid
      \<or> crimp_written (rows ! i) (tree rep ! i) 19 cid" by blast
  then show "text_at (tree rep ! i) 15 = text_at (rows ! i) 15
        \<and> type_at (tree rep ! i) 15 = type_at (rows ! i) 15
      \<or> text_at (tree rep ! i) 19 = text_at (rows ! i) 19
        \<and> type_at (tree rep ! i) 19 = type_at (rows ! i) 19"
    by (auto simp: same_cells_def crimp_written_def)
next
  assume a: "apply_crimp_rules rows src rules pd anchor = Inr rep' \<and> i < length rows"
  with apply_crimp_rules_rows(2) [of rows src rules pd anchor rep' i]
  show w: "same_cells (rows ! i) (tree rep' ! i)
      \<or> (\<exists>rule t c. rule \<in> set rules
            \<and> (t = left_col_of rule \<or> t = right_col_of rule) \<and> crimp_id rule = Some c
            \<and> crimp_written (rows ! i) (tree rep' ! i) t c)"
    unfolding rule_wrote_def by blast
  then consider "same_cells (rows ! i) (tree rep' ! i)"
    | t c where "crimp_written (rows ! i) (tree rep' ! i) t c" by blast
  then show "text_at (tree rep' ! i) 15 = text_at (rows ! i) 15
        \<and> type_at (tree rep' ! i) 15 = type_at (rows ! i) 15
      \<or> text_at (tree rep' ! i) 19 = text_at (rows ! i) 19
        \<and> type_at (tree rep' ! i) 19 = type_at (rows ! i) 19"
  proof cases
    case 1
    then show ?thesis by (simp add: same_cells_def)
  next
    case 2
    have "15 \<notin> {t - 2, t - 1, t} \<or> 19 \<notin> {t - 2, t - 1, t}" by auto
    with 2 show ?thesis unfolding crimp_written_def by auto
  qed
next
  assume a: "first_last_endpoint_tokens (strip (text_at r ca)) = (Some ''PSS1'', Some ''FOO'')
       \<and> strip (text_at r 15) = [] \<and> strip (text_at r 19) = []
       \<and> (g = Some 14 \<or> extract_gauge_from_wire_id (text_at r cw) = Some 14)
       \<and> (pl = None \<or> pl = Some ''C'')"
  obtain r1 k where oc: "get_or_create_cell_at_position r 15 = (r1, k)"
    by (cases "get_or_create_cell_at_position r 15")
  let ?r' = "blank_neighbours (set_text_at r1 k cid ''String'') 14 13"
  have l: "token_matches_endpoint (Some ''PSS1'')" by code_simp
  have nr: "\<not> token_matches_endpoint (Some ''FOO'')" by code_simp
  from a have run: "auto_crimp_row pl g cw ca cid pref r = (?r', 1)"
    by (intro auto_crimp_row_left_only [OF _ l nr _ _ _ _ oc]) simp_all
  from a crimp_written_write_blank [OF oc, of cid] have w: "crimp_written r ?r' 15 cid" by simp
  have p: "pos2cell ?r' 19 = pos2cell r 19"
    by (simp add: blank_neighbours_def pos2cell_blank_cell get_or_create_props(6) [OF oc])
  from w have "text_at ?r' 15 = cid \<and> type_at ?r' 15 = Some ''String''
      \<and> text_at ?r' 14 = [] \<and> type_at ?r' 14 = Some ''String''
      \<and> text_at ?r' 13 = [] \<and> type_at ?r' 13 = Some ''String''
      \<and> text_at ?r' 19 = text_at r 19 \<and> type_at ?r' 19 = type_at r 19"
    by (simp add: crimp_written_def)
  with run w p show "\<exists>r'. auto_crimp_row pl g cw ca cid pref r = (r', 1)
      \<and> crimp_written r r' 15 cid
      \<and> text_at r' 15 = cid \<and> type_at r' 15 = Some ''String''
      \<and> text_at r' 14 = [] \<and> type_at r' 14 = Some ''String''
      \<and> text_at r' 13 = [] \<and> type_at r' 13 = Some ''String''
      \<and> pos2cell r' 19 = pos2cell r 19
      \<and> text_at r' 19 = text_at r 19 \<and> type_at r' 19 = type_at r 19"
    by blast
qed

theorem crimp_write_blanks_left_neighbours_witness:
  "apply_auto_crimp_endpoints example_crimp_table ''s5DpC14.xml'' ''Order ID'' ''018769-025''
       ''left'' = Inr \<lparr>warnings = [], tree = example_crimp_table_once, changed = 1\<rparr>
   \<and> crimp_written (example_crimp_table ! 1) (example_crimp_table_once ! 1) 15 ''018769-025''
   \<and> apply_crimp_rules example_crimp_table ''s5DpC14.xml'' [example_rule] ''left'' ''Order ID'' =
       Inr \<lparr>warnings = [], tree = example_rules_table_once, changed = 1\<rparr>
   \<and> crimp_written (example_crimp_table ! 1) (example_rules_table_once ! 1) 15 ''018769-025''
   \<and> first_last_endpoint_tokens (strip (text_at (example_crimp_table ! 1) 6)) =
       (Some ''PSS1'', Some ''FOO'')
   \<and> auto_crimp_row (Some ''C'') (Some 14) 11 6 ''018769-025'' ''left'' (example_crimp_table ! 1) =
       (example_crimp_table_once ! 1, 1)
   \<and> pos2cell (example_crimp_table_once ! 1) 19 = None"
proof -
  let ?rep = "\<lparr>warnings = [], tree = example_crimp_table_once, changed = 1\<rparr>"
  let ?rep' = "\<lparr>warnings = [], tree = example_rules_table_once, changed = 1\<rparr>"
  let ?r = "example_crimp_table ! 1"
  have a: "apply_auto_crimp_endpoints example_crimp_table ''s5DpC14.xml'' ''Order ID''
      ''018769-025'' ''left'' = Inr ?rep"
    by code_simp
  have b: "apply_crimp_rules example_crimp_table ''s5DpC14.xml'' [example_rule] ''left''
      ''Order ID'' = Inr ?rep'"
    by code_simp
  have i: "(1::nat) < length example_crimp_table"
    by (simp add: example_crimp_table_def)
  have tok: "first_last_endpoint_tokens (strip (text_at ?r 6)) = (Some ''PSS1'', Some ''FOO'')"
    by code_simp
  have bl: "strip (text_at ?r 15) = []" "strip (text_at ?r 19) = []"
    by code_simp+
  have run: "auto_crimp_row (Some ''C'') (Some 14) 11 6 ''018769-025'' ''left'' ?r =
      (example_crimp_table_once ! 1, 1)"
    by code_simp
  have ch: "text_at (example_crimp_table_once ! 1) 15 \<noteq> text_at ?r 15"
    "text_at (example_rules_table_once ! 1) 15 \<noteq> text_at ?r 15"
    "text_at (example_crimp_table_once ! 1) 19 = text_at ?r 19"
    "text_at (example_rules_table_once ! 1) 19 = text_at ?r 19"
    by code_simp+
  have p: "pos2cell ?r 19 = None" by code_simp
  have cid: "crimp_id example_rule = Some ''018769-025''"
    "left_col_of example_rule = 15" "right_col_of example_rule = 19"
    by (simp_all add: example_rule_def left_col_of_def right_col_of_def)
  note inst = crimp_write_blanks_left_neighbours [of example_crimp_table "''s5DpC14.xml''"
      "''Order ID''" "''018769-025''" "''left''" "?rep" 1 "[example_rule]" "''left''" "?rep'"
      "?r" 6 "Some 14" 11 "Some ''C''"]
  have n1: "\<not> same_cells ?r (example_crimp_table_once ! 1)"
    "\<not> same_cells ?r (example_rules_table_once ! 1)"
    using ch(1,2) same_cells_text by blast+
  have n2: "\<not> crimp_written ?r (example_crimp_table_once ! 1) 19 c"
    "\<not> crimp_written ?r (example_rules_table_once ! 1) 19 c" for c
    using ch(1,2) crimp_written_other [of ?r _ 19 c 15] by auto
  from inst a i n1(1) n2(1)
  have w1: "crimp_written ?r (example_crimp_table_once ! 1) 15 ''018769-025''"
    by auto
  from inst b i n1(2) n2(2) cid
  have w2: "crimp_written ?r (example_rules_table_once ! 1) 15 ''018769-025''"
    by auto
  from inst tok bl run p have "pos2cell (example_crimp_table_once ! 1) 19 = None"
    by auto
  with a b w1 w2 tok run show ?thesis by simp
qed

text \<open>
  The hardcoded strategy leaves the table alone when the file name gives a panel
  letter other than \<open>C\<close>, or a gauge other than 14, as long as that gauge is not zero; and
  a row is written only if the file name gives gauge 14 or the row's Wire ID does.
\<close>

lemma auto_crimp_skips_other_files:
  assumes "find_header rows anchor = Inr (h, hdr)"
    and "parse_panel_gauge_from_p_token (snd (parse_section_panel_from_filename src)) = (pl, g)"
    and "(pl \<noteq> None \<and> pl \<noteq> Some ''C'') \<or> (g \<noteq> None \<and> g \<noteq> Some 0 \<and> g \<noteq> Some 14)"
  shows "apply_auto_crimp_endpoints rows src anchor cid pref =
           Inr \<lparr>warnings = [], tree = rows, changed = 0\<rparr>"
  using assms unfolding apply_auto_crimp_endpoints_def Let_def
  by (auto simp: case_prod_beta)

lemma auto_crimp_row_gauge_gate:
  assumes "auto_crimp_row pl g cw ca cid pref r = (r', n)"
    and "g \<noteq> Some 14" and "extract_gauge_from_wire_id (text_at r cw) \<noteq> Some 14"
  shows "r' = r \<and> n = 0"
  using assms unfolding auto_crimp_row_def Let_def by simp

text \<open>
  C3. The claim that no row changes when the file name gives a gauge other than 14
  fails for the gauge zero, against the source's own comment (``if file name clearly
  indicates not C or not 14, skip entirely''). The file name \<open>s5DpC0.xml\<close> gives panel \<open>C\<close> and gauge 0,
  which the test \<open>if gauge_from_name and gauge_from_name != 14\<close> takes for no gauge at
  all: the run goes on, the Wire ID \<open>14-WHT\<close> passes the gauge gate of the row, and the row
  is written.
\<close>

theorem auto_crimp_gauge_zero_not_skipped:
  "parse_section_panel_from_filename ''s5DpC0.xml'' = (''s5D'', ''pC0'')
   \<and> parse_panel_gauge_from_p_token ''pC0'' = (Some ''C'', Some 0)
   \<and> apply_auto_crimp_endpoints example_crimp_table ''s5DpC0.xml'' ''Order ID'' ''018769-025''
         ''left'' = Inr \<lparr>warnings = [], tree = example_crimp_table_once, changed = 1\<rparr>
   \<and> example_crimp_table_once \<noteq> example_crimp_table"
proof -
  have "example_crimp_table_once \<noteq> example_crimp_table"
    by (simp add: example_crimp_table_once_def example_crimp_table_def)
  moreover have "parse_section_panel_from_filename ''s5DpC0.xml'' = (''s5D'', ''pC0'')"
    by code_simp
  moreover have "parse_panel_gauge_from_p_token ''pC0'' = (Some ''C'', Some 0)"
    by code_simp
  moreover have "apply_auto_crimp_endpoints example_crimp_table ''s5DpC0.xml'' ''Order ID''
      ''018769-025'' ''left'' = Inr \<lparr>warnings = [], tree = example_crimp_table_once, changed = 1\<rparr>"
    by code_simp
  ultimately show ?thesis by simp
qed

lemma strip_Nil [simp]: "strip [] = []"
  by (simp add: strip_def)

lemma wire_length_row_props:
  "strip (text_at r col) = ''300'' \<Longrightarrow>
     text_at (fst (wire_length_row col r)) col = ''200''
     \<and> type_at (fst (wire_length_row col r)) col = Some ''Number''"
  "strip (text_at r col) \<noteq> ''300'' \<Longrightarrow> wire_length_row col r = (r, 0)"
proof -
  show "text_at (fst (wire_length_row col r)) col = ''200''
     \<and> type_at (fst (wire_length_row col r)) col = Some ''Number''"
    if s: "strip (text_at r col) = ''300''"
  proof (cases "pos2cell r col")
    case None
    with s show ?thesis by (simp add: text_at_def)
  next
    case (Some k)
    with s have "strip (get_cell_text (r ! k)) = ''300''" by (simp add: text_at_def)
    with Some have "wire_length_row col r = (set_text_at r k ''200'' ''Number'', 1)"
      by (simp add: wire_length_row_def)
    with Some show ?thesis by (simp add: text_at_set_text_at type_at_set_text_at)
  qed
  show "strip (text_at r col) \<noteq> ''300'' \<Longrightarrow> wire_length_row col r = (r, 0)"
    by (cases "pos2cell r col") (simp_all add: wire_length_row_def text_at_def)
qed

lemma strip_300: "strip ''300'' = ''300''"
  by code_simp

text \<open>
  C8. The wire-length substitution fires only for a file whose base name contains
  \<open>null\<close>. For a file whose name does not, the table is returned as it is (every Wire
  Length stays, a \<open>300\<close> stays \<open>300\<close>). For a file whose name does, on a table with a
  header row that names a \<open>Wire Length\<close> column, every data row whose Wire Length is
  \<open>300\<close> (also with spaces around it) reads \<open>200\<close>, typed \<open>Number\<close>, afterwards, and every
  other row is left as it is.
\<close>

theorem fix_wire_length_only_for_null_files:
  "(\<not> py_in ''null'' (basename src)
      \<longrightarrow> fix_wire_length_for_null_files rows src anchor =
            Inr \<lparr>warnings = [], tree = rows, changed = 0\<rparr>)
   \<and> (py_in ''null'' (basename src) \<and> find_header rows anchor = Inr (h, hdr)
       \<and> hdr ''Wire Length'' = Some col
      \<longrightarrow> (\<exists>rep. fix_wire_length_for_null_files rows src anchor = Inr rep
            \<and> warnings rep = [] \<and> length (tree rep) = length rows
            \<and> (\<forall>i. h < i \<and> i < length rows \<and> text_at (rows ! i) col = ''300''
                  \<longrightarrow> text_at (tree rep ! i) col = ''200''
                      \<and> type_at (tree rep ! i) col = Some ''Number'')
            \<and> (\<forall>i. h < i \<and> i < length rows \<and> strip (text_at (rows ! i) col) = ''300''
                  \<longrightarrow> text_at (tree rep ! i) col = ''200'')
            \<and> (\<forall>i < length rows. i \<le> h \<or> strip (text_at (rows ! i) col) \<noteq> ''300''
                  \<longrightarrow> tree rep ! i = rows ! i)))"
proof (intro conjI impI)
  assume "\<not> py_in ''null'' (basename src)"
  then show "fix_wire_length_for_null_files rows src anchor =
      Inr \<lparr>warnings = [], tree = rows, changed = 0\<rparr>"
    by (simp add: fix_wire_length_for_null_files_def)
next
  assume a: "py_in ''null'' (basename src) \<and> find_header rows anchor = Inr (h, hdr)
       \<and> hdr ''Wire Length'' = Some col"
  obtain rows' n where o: "on_data_rows h (wire_length_row col) rows = (rows', n)"
    by (cases "on_data_rows h (wire_length_row col) rows")
  let ?rep = "\<lparr>warnings = [], tree = rows', changed = n\<rparr>"
  from a o have run: "fix_wire_length_for_null_files rows src anchor = Inr ?rep"
    by (simp add: fix_wire_length_for_null_files_def)
  note nth = on_data_rows_nth [OF o]
  have 1: "text_at (rows' ! i) col = ''200'' \<and> type_at (rows' ! i) col = Some ''Number''"
    if "h < i" "i < length rows" "strip (text_at (rows ! i) col) = ''300''" for i
    using that nth(2) [of i] wire_length_row_props(1) [of "rows ! i" col] by simp
  have 2: "rows' ! i = rows ! i"
    if "i < length rows" "i \<le> h \<or> strip (text_at (rows ! i) col) \<noteq> ''300''" for i
    using that nth(2) [of i] wire_length_row_props(2) [of "rows ! i" col] by auto
  from 1 2 nth(1) run show "\<exists>rep. fix_wire_length_for_null_files rows src anchor = Inr rep
      \<and> warnings rep = [] \<and> length (tree rep) = length rows
      \<and> (\<forall>i. h < i \<and> i < length rows \<and> text_at (rows ! i) col = ''300''
            \<longrightarrow> text_at (tree rep ! i) col = ''200''
                \<and> type_at (tree rep ! i) col = Some ''Number'')
      \<and> (\<forall>i. h < i \<and> i < length rows \<and> strip (text_at (rows ! i) col) = ''300''
            \<longrightarrow> text_at (tree rep ! i) col = ''200'')
      \<and> (\<forall>i < length rows. i \<le> h \<or> strip (text_at (rows ! i) col) \<noteq> ''300''
            \<longrightarrow> tree rep ! i = rows ! i)"
    by (intro exI [of _ ?rep]) (simp add: strip_300)
qed

theorem fix_wire_length_only_for_null_files_witness:
  "\<not> py_in ''null'' (basename ''s5DpC14.xml'')
   \<and> fix_wire_length_for_null_files example_fixer_table ''s5DpC14.xml'' ''Order ID'' =
       Inr \<lparr>warnings = [], tree = example_fixer_table, changed = 0\<rparr>
   \<and> text_at (example_fixer_table ! 1) 12 = ''300''
   \<and> py_in ''null'' (basename ''out/s5DpCnull.xml'')
   \<and> find_header example_fixer_table ''Order ID'' = Inr (0, header_map example_fixer_header)
   \<and> header_map example_fixer_header ''Wire Length'' = Some 12
   \<and> (\<exists>rep. fix_wire_length_for_null_files example_fixer_table ''out/s5DpCnull.xml''
         ''Order ID'' = Inr rep \<and> text_at (tree rep ! 1) 12 = ''200''
         \<and> tree rep ! 0 = example_fixer_table ! 0)
   \<and> fix_wire_length_for_null_files example_fixer_table ''out/s5DpCnull.xml'' ''Order ID'' =
       Inr \<lparr>warnings = [], tree = example_length_fixed_table, changed = 1\<rparr>"
proof -
  have ev: "fix_wire_length_for_null_files example_fixer_table ''out/s5DpCnull.xml''
      ''Order ID'' = Inr \<lparr>warnings = [], tree = example_length_fixed_table, changed = 1\<rparr>"
    by code_simp
  have a: "\<not> py_in ''null'' (basename ''s5DpC14.xml'')" by code_simp
  have b: "py_in ''null'' (basename ''out/s5DpCnull.xml'')" by code_simp
  have "find_header_row_index example_fixer_table ''Order ID'' 80 = Inr 0" by code_simp
  then have c: "find_header example_fixer_table ''Order ID'' =
      Inr (0, header_map example_fixer_header)"
    by (simp add: find_header_def example_fixer_table_def)
  have d: "header_map example_fixer_header ''Wire Length'' = Some 12" by code_simp
  have e: "text_at (example_fixer_table ! 1) 12 = ''300''" by code_simp
  have f: "(1::nat) < length example_fixer_table" "(0::nat) < length example_fixer_table"
    by (simp_all add: example_fixer_table_def)
  from fix_wire_length_only_for_null_files [of "''s5DpC14.xml''" example_fixer_table
      "''Order ID''"] a
  have g: "fix_wire_length_for_null_files example_fixer_table ''s5DpC14.xml'' ''Order ID'' =
      Inr \<lparr>warnings = [], tree = example_fixer_table, changed = 0\<rparr>" by blast
  from fix_wire_length_only_for_null_files [of "''out/s5DpCnull.xml''" example_fixer_table
      "''Order ID''" 0 "header_map example_fixer_header" 12] b c d
  obtain rep where r: "fix_wire_length_for_null_files example_fixer_table ''out/s5DpCnull.xml''
      ''Order ID'' = Inr rep"
    and h1: "\<forall>i. 0 < i \<and> i < length example_fixer_table
        \<and> text_at (example_fixer_table ! i) 12 = ''300'' \<longrightarrow> text_at (tree rep ! i) 12 = ''200''
            \<and> type_at (tree rep ! i) 12 = Some ''Number''"
    and h2: "\<forall>i < length example_fixer_table.
        i \<le> 0 \<or> strip (text_at (example_fixer_table ! i) 12) \<noteq> ''300''
        \<longrightarrow> tree rep ! i = example_fixer_table ! i"
    by blast
  from h1 e f have "text_at (tree rep ! 1) 12 = ''200''" by simp
  moreover from h2 f(2) have "tree rep ! 0 = example_fixer_table ! 0" by blast
  ultimately show ?thesis using a b c d e g r ev by blast
qed

lemma article_group_row_text:
  "text_at (fst (article_group_row section panel base col_ag col_wire r)) q =
     (if q = col_ag
      then article_group_job (text_at r col_ag) base @ '' '' @
           article_group_suffix section panel (parse_gc (text_at r col_wire))
      else text_at r q)"
proof -
  obtain r1 k where g: "get_or_create_cell_at_position r col_ag = (r1, k)"
    by (cases "get_or_create_cell_at_position r col_ag")
  note p = get_or_create_props [OF g]
  let ?final = "article_group_job (text_at r col_ag) base @ '' '' @
      article_group_suffix section panel (parse_gc (text_at r col_wire))"
  show ?thesis
  proof (cases "text_at r col_ag = ?final")
    case True
    then have "article_group_row section panel base col_ag col_wire r = (r1, 0)"
      by (simp add: article_group_row_def Let_def g p(5))
    with True show ?thesis by (simp add: p(3))
  next
    case False
    then have "article_group_row section panel base col_ag col_wire r =
        (set_text_at r1 k ?final ''String'', 1)"
      by (simp add: article_group_row_def Let_def g p(5))
    then show ?thesis by (simp add: text_at_write [OF g])
  qed
qed

text \<open>
  C7. On a table whose header row names an \<open>Article Group\<close> and a \<open>Wire ID\<close> column, the
  group-label fixer leaves in the Article Group column of every data row the label
  \<open>job\<close>, a space, and the suffix: \<open>job\<close> is the leading alphanumeric token of the label
  the row had, else the job number in the file name, else \<open>null\<close>; the suffix is section,
  panel and gauge-colour joined, or the single token \<open>null\<close> when one of the three is
  unresolved (\<open>null\<close>). For the file name \<open>s5DpC14.xml\<close>, an empty Article Group and the
  Wire ID \<open>18-WHT\<close> the label is \<open>null s5DpC1418WHT\<close>.
\<close>

theorem set_article_group_label:
  "(find_header rows anchor = Inr (h, hdr) \<and> hdr ''Article Group'' = Some col_ag
      \<and> hdr ''Wire ID'' = Some col_wire
      \<and> parse_section_panel_from_filename src = (section, panel)
     \<longrightarrow> (\<exists>rep. set_article_group rows src anchor = Inr rep
           \<and> length (tree rep) = length rows
           \<and> (\<forall>i. h < i \<and> i < length rows
                \<longrightarrow> text_at (tree rep ! i) col_ag =
                      article_group_job (text_at (rows ! i) col_ag) (file_base src) @ '' '' @
                      (if section = ''null'' \<or> panel = ''null''
                          \<or> parse_gc (text_at (rows ! i) col_wire) = ''null''
                       then ''null''
                       else section @ panel @ parse_gc (text_at (rows ! i) col_wire)))))
   \<and> parse_section_panel_from_filename ''s5DpC14.xml'' = (''s5D'', ''pC14'')
   \<and> parse_gc ''18-WHT'' = ''18WHT''
   \<and> article_group_job [] (file_base ''s5DpC14.xml'') = ''null''
   \<and> set_article_group example_fixer_table ''s5DpC14.xml'' ''Order ID'' =
       Inr \<lparr>warnings = [], tree = example_group_fixed_table, changed = 1\<rparr>
   \<and> text_at (example_fixer_table ! 1) 4 = []
   \<and> text_at (example_fixer_table ! 1) 11 = ''18-WHT''
   \<and> text_at (example_group_fixed_table ! 1) 4 = ''null s5DpC1418WHT''"
proof (intro conjI impI)
  assume a: "find_header rows anchor = Inr (h, hdr) \<and> hdr ''Article Group'' = Some col_ag
      \<and> hdr ''Wire ID'' = Some col_wire
      \<and> parse_section_panel_from_filename src = (section, panel)"
  let ?f = "article_group_row section panel (file_base src) col_ag col_wire"
  obtain rows' n where o: "on_data_rows h ?f rows = (rows', n)"
    by (cases "on_data_rows h ?f rows")
  let ?rep = "\<lparr>warnings = [], tree = rows', changed = n\<rparr>"
  from a o have run: "set_article_group rows src anchor = Inr ?rep"
    by (simp add: set_article_group_def)
  note nth = on_data_rows_nth [OF o]
  have "text_at (rows' ! i) col_ag =
      article_group_job (text_at (rows ! i) col_ag) (file_base src) @ '' '' @
      (if section = ''null'' \<or> panel = ''null''
          \<or> parse_gc (text_at (rows ! i) col_wire) = ''null''
       then ''null''
       else section @ panel @ parse_gc (text_at (rows ! i) col_wire))"
    if "h < i" "i < length rows" for i
    using that nth(2) [of i]
    by (simp add: article_group_row_text article_group_suffix_def)
  with run nth(1)
  show "\<exists>rep. set_article_group rows src anchor = Inr rep
      \<and> length (tree rep) = length rows
      \<and> (\<forall>i. h < i \<and> i < length rows
           \<longrightarrow> text_at (tree rep ! i) col_ag =
                 article_group_job (text_at (rows ! i) col_ag) (file_base src) @ '' '' @
                 (if section = ''null'' \<or> panel = ''null''
                     \<or> parse_gc (text_at (rows ! i) col_wire) = ''null''
                  then ''null''
                  else section @ panel @ parse_gc (text_at (rows ! i) col_wire)))"
    by (intro exI [of _ ?rep]) simp
next
  show "parse_section_panel_from_filename ''s5DpC14.xml'' = (''s5D'', ''pC14'')"
    by code_simp
  show "parse_gc ''18-WHT'' = ''18WHT''"
    by code_simp
  show "article_group_job [] (file_base ''s5DpC14.xml'') = ''null''"
    by code_simp
  show "set_article_group example_fixer_table ''s5DpC14.xml'' ''Order ID'' =
      Inr \<lparr>warnings = [], tree = example_group_fixed_table, changed = 1\<rparr>"
    by code_simp
  show "text_at (example_fixer_table ! 1) 4 = []"
    by code_simp
  show "text_at (example_fixer_table ! 1) 11 = ''18-WHT''"
    by code_simp
  show "text_at (example_group_fixed_table ! 1) 4 = ''null s5DpC1418WHT''"
    by code_simp
qed

theorem set_article_group_label_witness:
  "find_header example_fixer_table ''Order ID'' = Inr (0, header_map example_fixer_header)
   \<and> header_map example_fixer_header ''Article Group'' = Some 4
   \<and> header_map example_fixer_header ''Wire ID'' = Some 11
   \<and> (\<exists>rep. set_article_group example_fixer_table ''s5DpC14.xml'' ''Order ID'' = Inr rep
         \<and> text_at (tree rep ! 1) 4 = ''null s5DpC1418WHT'')"
proof -
  have "find_header_row_index example_fixer_table ''Order ID'' 80 = Inr 0" by code_simp
  then have c: "find_header example_fixer_table ''Order ID'' =
      Inr (0, header_map example_fixer_header)"
    by (simp add: find_header_def example_fixer_table_def)
  have d: "header_map example_fixer_header ''Article Group'' = Some 4"
    "header_map example_fixer_header ''Wire ID'' = Some 11" by code_simp+
  have e: "parse_section_panel_from_filename ''s5DpC14.xml'' = (''s5D'', ''pC14'')"
    by code_simp
  have f: "(1::nat) < length example_fixer_table"
    by (simp add: example_fixer_table_def)
  have g: "article_group_job (text_at (example_fixer_table ! 1) 4) (file_base ''s5DpC14.xml'')
      @ '' '' @ (if ''s5D'' = ''null'' \<or> ''pC14'' = ''null''
          \<or> parse_gc (text_at (example_fixer_table ! 1) 11) = ''null''
       then ''null''
       else ''s5D'' @ ''pC14'' @ parse_gc (text_at (example_fixer_table ! 1) 11)) =
      ''null s5DpC1418WHT''"
    by code_simp
  from set_article_group_label [of example_fixer_table "''Order ID''" 0
      "header_map example_fixer_header" 4 11 "''s5DpC14.xml''" "''s5D''" "''pC14''"] c d e
  obtain rep where r: "set_article_group example_fixer_table ''s5DpC14.xml'' ''Order ID'' = Inr rep"
    and h: "\<forall>i. 0 < i \<and> i < length example_fixer_table
        \<longrightarrow> text_at (tree rep ! i) 4 =
            article_group_job (text_at (example_fixer_table ! i) 4) (file_base ''s5DpC14.xml'')
            @ '' '' @ (if ''s5D'' = ''null'' \<or> ''pC14'' = ''null''
                \<or> parse_gc (text_at (example_fixer_table ! i) 11) = ''null''
             then ''null''
             else ''s5D'' @ ''pC14'' @ parse_gc (text_at (example_fixer_table ! i) 11))"
    by blast
  from h f have "text_at (tree rep ! 1) 4 =
      article_group_job (text_at (example_fixer_table ! 1) 4) (file_base ''s5DpC14.xml'')
      @ '' '' @ (if ''s5D'' = ''null'' \<or> ''pC14'' = ''null''
          \<or> parse_gc (text_at (example_fixer_table ! 1) 11) = ''null''
       then ''null''
       else ''s5D'' @ ''pC14'' @ parse_gc (text_at (example_fixer_table ! 1) 11))"
    by simp
  with g have "text_at (tree rep ! 1) 4 = ''null s5DpC1418WHT''" by simp
  with c d r show ?thesis by blast
qed

text \<open>
  C6, as the code has it. On a table whose header row is found:
  \<^item> \<open>set_printer1_from_wireid\<close>, \<open>set_article_group\<close>, \<open>set_last_three_distances\<close> and, for
    a file named with \<open>null\<close>, \<open>fix_wire_length_for_null_files\<close> log one warning, leave
    the table as it is and return zero when a header they need is missing;
  \<^item> \<open>clear_printer_texts\<close> logs a warning for each of its two headers that is missing
    and still clears the column of the other one: it leaves the table as it is only
    when both are missing;
  \<^item> the crimp engine (either strategy) never logs a warning: for a missing \<open>Wire ID\<close> or
    \<open>Article ID\<close> header it reads column 11 or 6 instead and runs as usual.
\<close>

theorem missing_header_policy:
  "find_header rows anchor = Inr (h, hdr) \<longrightarrow>
     (hdr ''Wire ID'' = None \<or> hdr ''Printer1 ID'' = None
        \<longrightarrow> set_printer1_from_wireid rows anchor =
              Inr \<lparr>warnings = [Warn_missing_wire_id_or_printer1_id], tree = rows, changed = 0\<rparr>)
   \<and> (hdr ''Article Group'' = None \<or> hdr ''Wire ID'' = None
        \<longrightarrow> (\<exists>name. set_article_group rows src anchor =
              Inr \<lparr>warnings = [Warn_missing_header name], tree = rows, changed = 0\<rparr>))
   \<and> (hdr ''Printer1 Wire1 BeginDistance'' = None \<or> hdr ''Printer1 Wire1 EndlessDistance'' = None
         \<or> hdr ''Printer1 Wire1 EndDistance'' = None
        \<longrightarrow> (\<exists>name. set_last_three_distances rows anchor =
              Inr \<lparr>warnings = [Warn_missing_header name], tree = rows, changed = 0\<rparr>))
   \<and> (py_in ''null'' (basename src) \<and> hdr ''Wire Length'' = None
        \<longrightarrow> fix_wire_length_for_null_files rows src anchor =
              Inr \<lparr>warnings = [Warn_missing_wire_length], tree = rows, changed = 0\<rparr>)
   \<and> (hdr ''Printer1 Wire1 BeginText'' = None \<and> hdr ''Printer1 Wire1 EndText'' = None
        \<longrightarrow> clear_printer_texts rows anchor =
              Inr \<lparr>warnings = [Warn_header_not_found ''Printer1 Wire1 BeginText'',
                                Warn_header_not_found ''Printer1 Wire1 EndText''],
                   tree = rows, changed = 0\<rparr>)
   \<and> (hdr ''Printer1 Wire1 BeginText'' = None \<and> hdr ''Printer1 Wire1 EndText'' = Some col
        \<longrightarrow> clear_printer_texts rows anchor =
              Inr \<lparr>warnings = [Warn_header_not_found ''Printer1 Wire1 BeginText''],
                   tree = fst (on_data_rows h (clear_cell_row col) rows),
                   changed = snd (on_data_rows h (clear_cell_row col) rows)\<rparr>)
   \<and> (hdr ''Printer1 Wire1 BeginText'' = Some col \<and> hdr ''Printer1 Wire1 EndText'' = None
        \<longrightarrow> clear_printer_texts rows anchor =
              Inr \<lparr>warnings = [Warn_header_not_found ''Printer1 Wire1 EndText''],
                   tree = fst (on_data_rows h (clear_cell_row col) rows),
                   changed = snd (on_data_rows h (clear_cell_row col) rows)\<rparr>)
   \<and> (apply_auto_crimp_endpoints rows src anchor cid pref = Inr rep \<longrightarrow> warnings rep = [])
   \<and> (apply_crimp_rules rows src rules pd anchor = Inr rep' \<longrightarrow> warnings rep' = [])
   \<and> (hdr ''Wire ID'' = None \<and> hdr ''Article ID'' = None
       \<and> parse_panel_gauge_from_p_token (snd (parse_section_panel_from_filename src)) = (pl, g)
        \<longrightarrow> apply_crimp_rules rows src rules pd anchor =
              (case map_rows (crimp_rules_row rules pd pl g 11 6) (drop (Suc h) rows) of
                 Inl e \<Rightarrow> Inl e
               | Inr (rs', n) \<Rightarrow>
                   Inr \<lparr>warnings = [], tree = take (Suc h) rows @ rs', changed = n\<rparr>)
            \<and> ((pl = None \<or> pl = Some ''C'') \<and> (g = None \<or> g = Some 0 \<or> g = Some 14)
                \<longrightarrow> apply_auto_crimp_endpoints rows src anchor cid pref =
                      Inr \<lparr>warnings = [],
                           tree = fst (on_data_rows h (auto_crimp_row pl g 11 6 cid pref) rows),
                           changed = snd (on_data_rows h (auto_crimp_row pl g 11 6 cid pref)
                                            rows)\<rparr>))"
proof (intro impI conjI)
  assume fh: "find_header rows anchor = Inr (h, hdr)"
  show "set_printer1_from_wireid rows anchor =
      Inr \<lparr>warnings = [Warn_missing_wire_id_or_printer1_id], tree = rows, changed = 0\<rparr>"
    if "hdr ''Wire ID'' = None \<or> hdr ''Printer1 ID'' = None"
    using that fh by (auto simp: set_printer1_from_wireid_def split: option.splits)
  show "\<exists>name. set_article_group rows src anchor =
      Inr \<lparr>warnings = [Warn_missing_header name], tree = rows, changed = 0\<rparr>"
    if "hdr ''Article Group'' = None \<or> hdr ''Wire ID'' = None"
    using that fh by (auto simp: set_article_group_def split: option.splits)
  show "\<exists>name. set_last_three_distances rows anchor =
      Inr \<lparr>warnings = [Warn_missing_header name], tree = rows, changed = 0\<rparr>"
    if "hdr ''Printer1 Wire1 BeginDistance'' = None \<or> hdr ''Printer1 Wire1 EndlessDistance'' = None
         \<or> hdr ''Printer1 Wire1 EndDistance'' = None"
    using that fh by (auto simp: set_last_three_distances_def split: option.splits)
  show "fix_wire_length_for_null_files rows src anchor =
      Inr \<lparr>warnings = [Warn_missing_wire_length], tree = rows, changed = 0\<rparr>"
    if "py_in ''null'' (basename src) \<and> hdr ''Wire Length'' = None"
    using that fh by (simp add: fix_wire_length_for_null_files_def)
  show "clear_printer_texts rows anchor =
      Inr \<lparr>warnings = [Warn_header_not_found ''Printer1 Wire1 BeginText'',
                        Warn_header_not_found ''Printer1 Wire1 EndText''],
           tree = rows, changed = 0\<rparr>"
    if "hdr ''Printer1 Wire1 BeginText'' = None \<and> hdr ''Printer1 Wire1 EndText'' = None"
    using that fh by (simp add: clear_printer_texts_def clear_printer_column_def)
  show "clear_printer_texts rows anchor =
      Inr \<lparr>warnings = [Warn_header_not_found ''Printer1 Wire1 BeginText''],
           tree = fst (on_data_rows h (clear_cell_row col) rows),
           changed = snd (on_data_rows h (clear_cell_row col) rows)\<rparr>"
    if "hdr ''Printer1 Wire1 BeginText'' = None \<and> hdr ''Printer1 Wire1 EndText'' = Some col"
    using that fh
    by (simp add: clear_printer_texts_def clear_printer_column_def case_prod_beta)
  show "clear_printer_texts rows anchor =
      Inr \<lparr>warnings = [Warn_header_not_found ''Printer1 Wire1 EndText''],
           tree = fst (on_data_rows h (clear_cell_row col) rows),
           changed = snd (on_data_rows h (clear_cell_row col) rows)\<rparr>"
    if "hdr ''Printer1 Wire1 BeginText'' = Some col \<and> hdr ''Printer1 Wire1 EndText'' = None"
    using that fh
    by (simp add: clear_printer_texts_def clear_printer_column_def case_prod_beta)
  show "warnings rep = []" if "apply_auto_crimp_endpoints rows src anchor cid pref = Inr rep"
    using that fh unfolding apply_auto_crimp_endpoints_def Let_def
    by (auto simp: case_prod_beta split: if_splits)
  show "warnings rep' = []" if "apply_crimp_rules rows src rules pd anchor = Inr rep'"
    using that fh unfolding apply_crimp_rules_def Let_def
    by (auto simp: case_prod_beta split: sum.splits)
next
  assume fh: "find_header rows anchor = Inr (h, hdr)"
    and a: "hdr ''Wire ID'' = None \<and> hdr ''Article ID'' = None
       \<and> parse_panel_gauge_from_p_token (snd (parse_section_panel_from_filename src)) = (pl, g)"
  show "apply_crimp_rules rows src rules pd anchor =
      (case map_rows (crimp_rules_row rules pd pl g 11 6) (drop (Suc h) rows) of
         Inl e \<Rightarrow> Inl e
       | Inr (rs', n) \<Rightarrow> Inr \<lparr>warnings = [], tree = take (Suc h) rows @ rs', changed = n\<rparr>)"
    using fh a unfolding apply_crimp_rules_def Let_def
    by (cases "map_rows (crimp_rules_row rules pd pl g 11 6) (drop (Suc h) rows)")
      (auto simp: case_prod_beta)
next
  assume fh: "find_header rows anchor = Inr (h, hdr)"
    and a: "hdr ''Wire ID'' = None \<and> hdr ''Article ID'' = None
       \<and> parse_panel_gauge_from_p_token (snd (parse_section_panel_from_filename src)) = (pl, g)"
    and b: "(pl = None \<or> pl = Some ''C'') \<and> (g = None \<or> g = Some 0 \<or> g = Some 14)"
  show "apply_auto_crimp_endpoints rows src anchor cid pref =
      Inr \<lparr>warnings = [],
           tree = fst (on_data_rows h (auto_crimp_row pl g 11 6 cid pref) rows),
           changed = snd (on_data_rows h (auto_crimp_row pl g 11 6 cid pref) rows)\<rparr>"
    using fh a b unfolding apply_auto_crimp_endpoints_def Let_def
    by (auto simp: case_prod_beta)
qed

theorem missing_header_policy_witness:
  "find_header example_bare_table ''Order ID'' = Inr (0, header_map (example_bare_table ! 0))
   \<and> set_printer1_from_wireid example_bare_table ''Order ID'' =
       Inr \<lparr>warnings = [Warn_missing_wire_id_or_printer1_id], tree = example_bare_table,
            changed = 0\<rparr>
   \<and> (\<exists>name. set_article_group example_bare_table ''null.xml'' ''Order ID'' =
         Inr \<lparr>warnings = [Warn_missing_header name], tree = example_bare_table, changed = 0\<rparr>)
   \<and> (\<exists>name. set_last_three_distances example_bare_table ''Order ID'' =
         Inr \<lparr>warnings = [Warn_missing_header name], tree = example_bare_table, changed = 0\<rparr>)
   \<and> fix_wire_length_for_null_files example_bare_table ''null.xml'' ''Order ID'' =
       Inr \<lparr>warnings = [Warn_missing_wire_length], tree = example_bare_table, changed = 0\<rparr>
   \<and> clear_printer_texts example_bare_table ''Order ID'' =
       Inr \<lparr>warnings = [Warn_header_not_found ''Printer1 Wire1 BeginText'',
                         Warn_header_not_found ''Printer1 Wire1 EndText''],
            tree = example_bare_table, changed = 0\<rparr>
   \<and> clear_printer_texts example_endtext_table ''Order ID'' =
       Inr \<lparr>warnings = [Warn_header_not_found ''Printer1 Wire1 BeginText''],
            tree = fst (on_data_rows 0 (clear_cell_row 2) example_endtext_table),
            changed = snd (on_data_rows 0 (clear_cell_row 2) example_endtext_table)\<rparr>
   \<and> apply_auto_crimp_endpoints example_bare_table ''s5DpC14.xml'' ''Order ID'' ''018769-025''
         ''left'' =
       Inr \<lparr>warnings = [],
            tree = fst (on_data_rows 0
                     (auto_crimp_row (Some ''C'') (Some 14) 11 6 ''018769-025'' ''left'')
                     example_bare_table),
            changed = snd (on_data_rows 0
                     (auto_crimp_row (Some ''C'') (Some 14) 11 6 ''018769-025'' ''left'')
                     example_bare_table)\<rparr>"
proof -
  let ?hdr = "header_map (example_bare_table ! 0)"
  let ?hdr' = "header_map (example_endtext_table ! 0)"
  have "find_header_row_index example_bare_table ''Order ID'' 80 = Inr 0" by code_simp
  then have fh: "find_header example_bare_table ''Order ID'' = Inr (0, ?hdr)"
    by (simp add: find_header_def)
  have "find_header_row_index example_endtext_table ''Order ID'' 80 = Inr 0" by code_simp
  then have fh': "find_header example_endtext_table ''Order ID'' = Inr (0, ?hdr')"
    by (simp add: find_header_def)
  have none: "?hdr ''Wire ID'' = None" "?hdr ''Article ID'' = None"
    "?hdr ''Article Group'' = None" "?hdr ''Printer1 Wire1 BeginDistance'' = None"
    "?hdr ''Wire Length'' = None" "?hdr ''Printer1 Wire1 BeginText'' = None"
    "?hdr ''Printer1 Wire1 EndText'' = None"
    by code_simp+
  have e: "?hdr' ''Printer1 Wire1 BeginText'' = None" "?hdr' ''Printer1 Wire1 EndText'' = Some 2"
    by code_simp+
  have n: "py_in ''null'' (basename ''null.xml'')" by code_simp
  have p: "parse_panel_gauge_from_p_token (snd (parse_section_panel_from_filename ''s5DpC14.xml''))
      = (Some ''C'', Some 14)" by code_simp
  note a = missing_header_policy [of example_bare_table "''Order ID''" 0 "?hdr" "''null.xml''"]
  note b = missing_header_policy [of example_endtext_table "''Order ID''" 0 "?hdr'" _ 2]
  note c = missing_header_policy [of example_bare_table "''Order ID''" 0 "?hdr"
      "''s5DpC14.xml''" _ "''018769-025''" "''left''" _ _ _ _ "Some ''C''" "Some 14"]
  from a fh none n have 1: "set_printer1_from_wireid example_bare_table ''Order ID'' =
       Inr \<lparr>warnings = [Warn_missing_wire_id_or_printer1_id], tree = example_bare_table,
            changed = 0\<rparr>"
    and 2: "\<exists>name. set_article_group example_bare_table ''null.xml'' ''Order ID'' =
         Inr \<lparr>warnings = [Warn_missing_header name], tree = example_bare_table, changed = 0\<rparr>"
    and 3: "\<exists>name. set_last_three_distances example_bare_table ''Order ID'' =
         Inr \<lparr>warnings = [Warn_missing_header name], tree = example_bare_table, changed = 0\<rparr>"
    and 4: "fix_wire_length_for_null_files example_bare_table ''null.xml'' ''Order ID'' =
       Inr \<lparr>warnings = [Warn_missing_wire_length], tree = example_bare_table, changed = 0\<rparr>"
    and 5: "clear_printer_texts example_bare_table ''Order ID'' =
       Inr \<lparr>warnings = [Warn_header_not_found ''Printer1 Wire1 BeginText'',
                         Warn_header_not_found ''Printer1 Wire1 EndText''],
            tree = example_bare_table, changed = 0\<rparr>"
    by blast+
  from b fh' e have 6: "clear_printer_texts example_endtext_table ''Order ID'' =
       Inr \<lparr>warnings = [Warn_header_not_found ''Printer1 Wire1 BeginText''],
            tree = fst (on_data_rows 0 (clear_cell_row 2) example_endtext_table),
            changed = snd (on_data_rows 0 (clear_cell_row 2) example_endtext_table)\<rparr>"
    by blast
  from c fh none(1,2) p have 7: "apply_auto_crimp_endpoints example_bare_table ''s5DpC14.xml''
      ''Order ID'' ''018769-025'' ''left'' =
       Inr \<lparr>warnings = [],
            tree = fst (on_data_rows 0
                     (auto_crimp_row (Some ''C'') (Some 14) 11 6 ''018769-025'' ''left'')
                     example_bare_table),
            changed = snd (on_data_rows 0
                     (auto_crimp_row (Some ''C'') (Some 14) 11 6 ''018769-025'' ''left'')
                     example_bare_table)\<rparr>"
    by blast
  from fh 1 2 3 4 5 6 7 show ?thesis by blast
qed

theorem missing_header_policy_counterexample:
  "find_header_row_index example_endtext_table ''Order ID'' 80 = Inr 0
   \<and> header_map (example_endtext_table ! 0) ''Printer1 Wire1 BeginText'' = None
   \<and> clear_printer_texts example_endtext_table ''Order ID'' =
       Inr \<lparr>warnings = [Warn_header_not_found ''Printer1 Wire1 BeginText''],
            tree = example_endtext_table_cleared, changed = 1\<rparr>
   \<and> example_endtext_table_cleared \<noteq> example_endtext_table
   \<and> find_header_row_index example_bare_table ''Order ID'' 80 = Inr 0
   \<and> header_map (example_bare_table ! 0) ''Wire ID'' = None
   \<and> header_map (example_bare_table ! 0) ''Article ID'' = None
   \<and> apply_auto_crimp_endpoints example_bare_table ''s5DpC14.xml'' ''Order ID'' ''018769-025''
         ''left'' = Inr \<lparr>warnings = [], tree = example_bare_table_crimped, changed = 1\<rparr>
   \<and> apply_crimp_rules example_bare_table ''s5DpC14.xml'' [example_rule] ''left'' ''Order ID'' =
       Inr \<lparr>warnings = [], tree = example_bare_table_rules, changed = 1\<rparr>
   \<and> example_bare_table_crimped \<noteq> example_bare_table
   \<and> example_bare_table_rules \<noteq> example_bare_table"
proof -
  have "example_endtext_table_cleared \<noteq> example_endtext_table"
    "example_bare_table_crimped \<noteq> example_bare_table"
    "example_bare_table_rules \<noteq> example_bare_table"
    by (simp_all add: example_endtext_table_cleared_def example_endtext_table_def
        example_bare_table_crimped_def example_bare_table_rules_def example_bare_table_def
        text_cell_def)
  moreover have "find_header_row_index example_endtext_table ''Order ID'' 80 = Inr 0"
    "header_map (example_endtext_table ! 0) ''Printer1 Wire1 BeginText'' = None"
    "clear_printer_texts example_endtext_table ''Order ID'' =
       Inr \<lparr>warnings = [Warn_header_not_found ''Printer1 Wire1 BeginText''],
            tree = example_endtext_table_cleared, changed = 1\<rparr>"
    "find_header_row_index example_bare_table ''Order ID'' 80 = Inr 0"
    "header_map (example_bare_table ! 0) ''Wire ID'' = None"
    "header_map (example_bare_table ! 0) ''Article ID'' = None"
    "apply_auto_crimp_endpoints example_bare_table ''s5DpC14.xml'' ''Order ID'' ''018769-025''
         ''left'' = Inr \<lparr>warnings = [], tree = example_bare_table_crimped, changed = 1\<rparr>"
    "apply_crimp_rules example_bare_table ''s5DpC14.xml'' [example_rule] ''left'' ''Order ID'' =
       Inr \<lparr>warnings = [], tree = example_bare_table_rules, changed = 1\<rparr>"
    by code_simp+
  ultimately show ?thesis by simp
qed

text \<open>
  C1, as the code has it. The splitter returns no output at all, with a warning, for a
  table whose header row has no \<open>Wire ID\<close> header; the claim holds of every table whose
  header row is found and names a \<open>Wire ID\<close> column, and every \<open>max_per\<close> above zero.
  The buckets (\<^const>\<open>split_groups\<close>) have distinct keys, which are the keys of the data
  rows; each bucket holds exactly the data rows with its key, in their original order;
  the chunks of a bucket, concatenated in order, are the bucket; no chunk is empty or
  longer than \<open>max_per\<close>; a bucket of \<open>n\<close> rows has \<open>ceil(n / max_per)\<close> chunks; the tables
  emitted are, bucket by bucket and chunk by chunk, the rows up to the header row
  followed by the chunk; and all chunks together hold every data row exactly once.
\<close>

theorem split_by_gauge_color_partition:
  "find_header rows anchor = Inr (h, hdr) \<and> hdr ''Wire ID'' = Some col_wire \<and> 0 < max_per
   \<longrightarrow> (\<exists>ws outs chunks.
          split_by_gauge_color rows src anchor max_per = Inr (ws, outs)
        \<and> length chunks = length (split_groups h hdr col_wire rows)
        \<and> map snd outs = map (\<lambda>c. take (Suc h) rows @ c) (concat chunks)
        \<and> distinct (map fst (split_groups h hdr col_wire rows))
        \<and> fst ` set (split_groups h hdr col_wire rows) =
            split_key col_wire (hdr ''Article ID'') ` set (drop (Suc h) rows)
        \<and> (\<forall>j < length (split_groups h hdr col_wire rows).
              snd (split_groups h hdr col_wire rows ! j) =
                filter (\<lambda>r. split_key col_wire (hdr ''Article ID'') r =
                             fst (split_groups h hdr col_wire rows ! j))
                  (drop (Suc h) rows)
            \<and> concat (chunks ! j) = snd (split_groups h hdr col_wire rows ! j)
            \<and> (\<forall>c \<in> set (chunks ! j). c \<noteq> [] \<and> int (length c) \<le> max_per)
            \<and> int (length (chunks ! j)) =
                \<lceil>real (length (snd (split_groups h hdr col_wire rows ! j))) / real_of_int max_per\<rceil>)
        \<and> mset (concat (concat chunks)) = mset (drop (Suc h) rows))"
proof
  assume a: "find_header rows anchor = Inr (h, hdr) \<and> hdr ''Wire ID'' = Some col_wire
      \<and> 0 < max_per"
  then have m: "0 < max_per" by simp
  let ?key = "split_key col_wire (hdr ''Article ID'')"
  let ?data = "drop (Suc h) rows"
  let ?groups = "split_groups h hdr col_wire rows"
  define chunks_fn :: "(string \<times> bool) \<times> row list \<Rightarrow> row list list" where
    "chunks_fn b = (case chunks_of (snd b) max_per of Inr cs \<Rightarrow> cs | Inl e \<Rightarrow> [])" for b
  let ?chunks = "map chunks_fn ?groups"
  have g: "?groups = group_rows ?key ?data" by (simp add: split_groups_def)
  note gp = group_rows_props [where key = ?key and rs = ?data, folded g]
  have bucket: "snd b = filter (\<lambda>r. ?key r = fst b) ?data \<and> snd b \<noteq> []"
    if "b \<in> set ?groups" for b
  proof -
    from that have "(fst b, snd b) \<in> set ?groups" by simp
    from gp(3) [OF this] show ?thesis .
  qed
  have ch: "chunks_of (snd b) max_per = Inr (chunks_fn b) \<and> concat (chunks_fn b) = snd b
      \<and> (\<forall>c \<in> set (chunks_fn b). c \<noteq> [] \<and> int (length c) \<le> max_per)
      \<and> int (length (chunks_fn b)) = \<lceil>real (length (snd b)) / real_of_int max_per\<rceil>"
    if "b \<in> set ?groups" for b
  proof -
    from bucket [OF that] have "snd b \<noteq> []" by (rule conjunct2)
    from chunks_of_props [OF m this] obtain cs where cs: "chunks_of (snd b) max_per = Inr cs"
      "concat cs = snd b" "\<forall>c \<in> set cs. c \<noteq> [] \<and> length c \<le> nat max_per"
      "int (length cs) = \<lceil>real (length (snd b)) / real_of_int max_per\<rceil>" by blast
    from cs(1) have "chunks_fn b = cs" by (simp add: chunks_fn_def)
    moreover from cs(3) m have "\<forall>c \<in> set cs. c \<noteq> [] \<and> int (length c) \<le> max_per" by auto
    ultimately show ?thesis using cs by simp
  qed
  obtain sec pan where sp: "parse_section_panel_from_filename src = (sec, pan)"
    by (cases "parse_section_panel_from_filename src")
  from ch have "\<forall>b \<in> set ?groups. chunks_of (snd b) max_per = Inr (chunks_fn b)" by blast
  from emit_buckets_tables [OF this, of rows h sec pan] obtain outs where
    outs: "emit_buckets rows h sec pan max_per ?groups = Inr outs"
      "map snd outs = map (\<lambda>c. take (Suc h) rows @ c) (concat ?chunks)" by blast
  let ?ws = "if hdr ''Article ID'' = None then [Warn_article_id_not_found] else []"
  from a sp outs(1) have run: "split_by_gauge_color rows src anchor max_per = Inr (?ws, outs)"
    by (simp add: split_by_gauge_color_def)
  have "concat (concat ?chunks) = concat (map snd ?groups)"
    unfolding concat_concat_map
    by (rule arg_cong [of _ _ concat], rule map_cong) (simp_all add: ch)
  then have all: "mset (concat (concat ?chunks)) = mset ?data"
    using gp(4) by simp
  have per: "snd (?groups ! j) = filter (\<lambda>r. ?key r = fst (?groups ! j)) ?data
      \<and> concat (?chunks ! j) = snd (?groups ! j)
      \<and> (\<forall>c \<in> set (?chunks ! j). c \<noteq> [] \<and> int (length c) \<le> max_per)
      \<and> int (length (?chunks ! j)) =
          \<lceil>real (length (snd (?groups ! j))) / real_of_int max_per\<rceil>"
    if "j < length ?groups" for j
    using conjunct1 [OF bucket [of "?groups ! j"]] ch [of "?groups ! j"] that by simp
  show "\<exists>ws outs chunks.
          split_by_gauge_color rows src anchor max_per = Inr (ws, outs)
        \<and> length chunks = length ?groups
        \<and> map snd outs = map (\<lambda>c. take (Suc h) rows @ c) (concat chunks)
        \<and> distinct (map fst ?groups)
        \<and> fst ` set ?groups = ?key ` set ?data
        \<and> (\<forall>j < length ?groups.
              snd (?groups ! j) = filter (\<lambda>r. ?key r = fst (?groups ! j)) ?data
            \<and> concat (chunks ! j) = snd (?groups ! j)
            \<and> (\<forall>c \<in> set (chunks ! j). c \<noteq> [] \<and> int (length c) \<le> max_per)
            \<and> int (length (chunks ! j)) =
                \<lceil>real (length (snd (?groups ! j))) / real_of_int max_per\<rceil>)
        \<and> mset (concat (concat chunks)) = mset ?data"
    apply (rule exI [of _ ?ws])
    apply (rule exI [of _ outs])
    apply (rule exI [of _ ?chunks])
    using run outs(2) gp(1,2) per all by simp
qed

theorem split_by_gauge_color_partition_witness:
  "find_header example_split_table ''Order ID'' = Inr (0, header_map (example_split_table ! 0))
   \<and> header_map (example_split_table ! 0) ''Wire ID'' = Some 11
   \<and> (\<exists>ws outs chunks.
         split_by_gauge_color example_split_table ''s5DpC14.xml'' ''Order ID'' 2 = Inr (ws, outs)
       \<and> map snd outs = map (\<lambda>c. take (Suc 0) example_split_table @ c) (concat chunks)
       \<and> mset (concat (concat chunks)) = mset (drop (Suc 0) example_split_table)
       \<and> map fst outs = [''s5DpC1414WHT_01'', ''s5DpC1414WHT_02'', ''s5DpC1418RED'',
                         ''s5DpC1414WHT_PLCIO''])"
proof -
  let ?hdr = "header_map (example_split_table ! 0)"
  have "find_header_row_index example_split_table ''Order ID'' 80 = Inr 0" by code_simp
  then have fh: "find_header example_split_table ''Order ID'' = Inr (0, ?hdr)"
    by (simp add: find_header_def)
  have w: "?hdr ''Wire ID'' = Some 11" by code_simp
  have names: "map_sum id (\<lambda>r. map fst (snd r))
      (split_by_gauge_color example_split_table ''s5DpC14.xml'' ''Order ID'' 2) =
      Inr [''s5DpC1414WHT_01'', ''s5DpC1414WHT_02'', ''s5DpC1418RED'', ''s5DpC1414WHT_PLCIO'']"
    by code_simp
  from split_by_gauge_color_partition [of example_split_table "''Order ID''" 0 ?hdr 11 2
      "''s5DpC14.xml''"] fh w
  obtain ws outs chunks where
    r: "split_by_gauge_color example_split_table ''s5DpC14.xml'' ''Order ID'' 2 = Inr (ws, outs)"
    and t: "map snd outs = map (\<lambda>c. take (Suc 0) example_split_table @ c) (concat chunks)"
    and ms: "mset (concat (concat chunks)) = mset (drop (Suc 0) example_split_table)"
    by auto
  from names r have "map fst outs =
      [''s5DpC1414WHT_01'', ''s5DpC1414WHT_02'', ''s5DpC1418RED'', ''s5DpC1414WHT_PLCIO'']"
    by simp
  with fh w r t ms show ?thesis
    by (intro conjI exI [of _ ws] exI [of _ outs] exI [of _ chunks])
qed

theorem split_by_gauge_color_counterexample:
  "find_header_row_index example_bare_table ''Order ID'' 80 = Inr 0
   \<and> header_map (example_bare_table ! 0) ''Wire ID'' = None
   \<and> drop (Suc 0) example_bare_table \<noteq> []
   \<and> split_by_gauge_color example_bare_table ''s5DpC14.xml'' ''Order ID'' 150 =
       Inr ([Warn_missing_wire_id_cannot_split], [])"
proof -
  have "drop (Suc 0) example_bare_table \<noteq> []"
    by (simp add: example_bare_table_def)
  moreover have "find_header_row_index example_bare_table ''Order ID'' 80 = Inr 0"
    "header_map (example_bare_table ! 0) ''Wire ID'' = None"
    "split_by_gauge_color example_bare_table ''s5DpC14.xml'' ''Order ID'' 150 =
       Inr ([Warn_missing_wire_id_cannot_split], [])"
    by code_simp+
  ultimately show ?thesis by simp
qed

end
